theory Spec2Isabelle
  imports Complex_Main "HOL-Library.Multiset" "HOL-Library.Sublist"
begin

section \<open>The transport client and message router (websocket.js)\<close>

subsection \<open>Exceptions, handlers and frames\<close>

text \<open>
  A JavaScript call either completes or throws; what it did to the state before it threw
  stays done. \<open>Thrown s\<close> is whatever a registered handler throws.
\<close>

datatype exn = SyntaxError | TypeError | Thrown string

datatype 'a completion = Normal 'a | Raise exn 'a

text \<open>
  A registered handler is called with the \<open>data\<close> member of the envelope. The handlers
  of this repository (the map and the chart controller) act on state of their own, which
  is the type \<open>'s\<close> here; \<open>'d\<close> is the type of JavaScript values.
\<close>

type_synonym ('d, 's) handler = "'d \<Rightarrow> 's \<Rightarrow> 's completion"

text \<open>
  The value of \<open>message.type\<close>: a string, or any other value, which the \<open>in\<close> operator
  and the member access \<open>this.handlers[...]\<close> first turn into a property key (for
  instance \<open>undefined\<close> into \<open>''undefined''\<close>). \<open>=== 'pong'\<close> holds for the string only.
\<close>

datatype tyval = Str string | NonStr string

fun property_key :: "tyval \<Rightarrow> string" where
  "property_key (Str s) = s"
| "property_key (NonStr s) = s"

text \<open>
  A raw frame \<open>event.data\<close>, by what \<open>JSON.parse\<close> makes of it: it throws a SyntaxError
  (\<open>Malformed\<close>), it returns \<open>null\<close> (reading \<open>null.type\<close> then throws a TypeError), or it
  returns another value \<open>v\<close>, of which the code reads \<open>v.type\<close> and \<open>v.data\<close>.
\<close>

datatype 'd frame = Malformed | Null_value | Value tyval 'd

subsection \<open>What the client does to the browser\<close>

datatype console_msg =
    Established
  | Closed nat
  | Ws_error
  | Processing_error exn
  | Cannot_send
  | Giving_up
  | Attempting rat nat
  | Reconnecting

datatype out_msg = Ping string

datatype effect =
    New_WebSocket string
  | Socket_close nat "nat option"
  | Socket_send nat out_msg
  | Set_timeout rat
  | Console console_msg

subsection \<open>The client\<close>

text \<open>
  The fields of \<open>WebSocketClient\<close> under their own names, then the part of the browser the
  client works on: the page's location, the WebSocket objects constructed so far (a
  socket is referred to by its number), the reconnect timeouts that have not fired yet
  (each with its delay in milliseconds), the running intervals, the trace of effects, and
  the state the handlers act on. \<open>connectionStatusElement\<close> is \<open>None\<close> when the page has no
  such element, and otherwise its text (without the coloured dot) and its class name.
\<close>

record ('d, 's) world =
  socket :: "nat option"
  isConnected :: bool
  reconnectAttempts :: nat
  maxReconnectAttempts :: nat
  reconnectDelay :: rat
  handlers :: "string \<rightharpoonup> ('d, 's) handler list"
  pingInterval :: "nat option"
  connectionStatusElement :: "(string \<times> string) option"
  location_protocol :: string
  location_host :: string
  nsockets :: nat
  pending :: "rat list"
  nintervals :: nat
  intervals :: "nat list"
  effects :: "effect list"
  app :: 's

definition emit :: "effect \<Rightarrow> ('d, 's) world \<Rightarrow> ('d, 's) world" where
  "emit e w = w\<lparr>effects := effects w @ [e]\<rparr>"

definition constructor ::
  "string \<Rightarrow> string \<Rightarrow> (string \<times> string) option \<Rightarrow> 's \<Rightarrow> ('d, 's) world" where
  "constructor protocol host element s =
     \<lparr>socket = None,
      isConnected = False,
      reconnectAttempts = 0,
      maxReconnectAttempts = 5,
      reconnectDelay = 1000,
      handlers = [''driver_updates'' \<mapsto> [], ''zone_updates'' \<mapsto> [], ''request_updates'' \<mapsto> []],
      pingInterval = None,
      connectionStatusElement = element,
      location_protocol = protocol,
      location_host = host,
      nsockets = 0,
      pending = [],
      nintervals = 0,
      intervals = [],
      effects = [],
      app = s\<rparr>"

definition wsUrl :: "('d, 's) world \<Rightarrow> string" where
  "wsUrl w =
     (if location_protocol w = ''https:'' then ''wss:'' else ''ws:'')
       @ ''//'' @ location_host w @ ''/ws''"

definition connect :: "('d, 's) world \<Rightarrow> ('d, 's) world" where
  "connect w =
     (let w1 = (case socket w of Some k \<Rightarrow> emit (Socket_close k None) w | None \<Rightarrow> w);
          k = nsockets w1
      in (emit (New_WebSocket (wsUrl w1)) w1)\<lparr>socket := Some k, nsockets := Suc k\<rparr>)"

definition updateConnectionStatus :: "bool \<Rightarrow> ('d, 's) world \<Rightarrow> ('d, 's) world" where
  "updateConnectionStatus status w =
     (case connectionStatusElement w of
        None \<Rightarrow> w
      | Some _ \<Rightarrow>
          if status
          then w\<lparr>connectionStatusElement := Some (''Connected'', ''connected'')\<rparr>
          else w\<lparr>connectionStatusElement := Some (''Disconnected'', ''disconnected'')\<rparr>)"

definition startPingInterval :: "('d, 's) world \<Rightarrow> ('d, 's) world" where
  "startPingInterval w =
     (let i = nintervals w
      in w\<lparr>pingInterval := Some i, nintervals := Suc i, intervals := intervals w @ [i]\<rparr>)"

definition clearInterval :: "nat option \<Rightarrow> ('d, 's) world \<Rightarrow> ('d, 's) world" where
  "clearInterval i w =
     (case i of None \<Rightarrow> w | Some k \<Rightarrow> w\<lparr>intervals := removeAll k (intervals w)\<rparr>)"

definition onOpen :: "('d, 's) world \<Rightarrow> ('d, 's) world" where
  "onOpen w =
     startPingInterval
       (updateConnectionStatus True
          ((emit (Console Established) w)\<lparr>isConnected := True, reconnectAttempts := 0\<rparr>))"

definition attemptReconnect :: "('d, 's) world \<Rightarrow> ('d, 's) world" where
  "attemptReconnect w =
     (if reconnectAttempts w \<ge> maxReconnectAttempts w
      then emit (Console Giving_up) w
      else
        let w1 = w\<lparr>reconnectAttempts := reconnectAttempts w + 1\<rparr>;
            delay = reconnectDelay w1 * (3 / 2) ^ (reconnectAttempts w1 - 1);
            w2 = emit (Console (Attempting delay (reconnectAttempts w1))) w1
        in (emit (Set_timeout delay) w2)\<lparr>pending := pending w2 @ [delay]\<rparr>)"

definition onClose :: "nat \<Rightarrow> ('d, 's) world \<Rightarrow> ('d, 's) world" where
  "onClose code w =
     (let w1 = (emit (Console (Closed code)) w)\<lparr>isConnected := False\<rparr>;
          w2 = updateConnectionStatus False w1;
          w3 = clearInterval (pingInterval w2) w2
      in if code \<noteq> 1000 then attemptReconnect w3 else w3)"

definition onError :: "('d, 's) world \<Rightarrow> ('d, 's) world" where
  "onError w = updateConnectionStatus False (emit (Console Ws_error) w)"

text \<open>
  \<open>this.handlers\<close> is an object literal, so besides its own properties it has the ones it
  inherits from \<open>Object.prototype\<close>, and \<open>in\<close> and member access see both. None of the
  inherited values is an array: none can be iterated over and none has a \<open>push\<close>.
\<close>

definition Object_prototype :: "string list" where
  "Object_prototype =
     [''constructor'', ''hasOwnProperty'', ''isPrototypeOf'', ''propertyIsEnumerable'',
      ''toLocaleString'', ''toString'', ''valueOf'', ''__proto__'',
      ''__defineGetter__'', ''__defineSetter__'', ''__lookupGetter__'', ''__lookupSetter__'']"

datatype ('d, 's) property = Own "('d, 's) handler list" | Inherited | Absent

definition get_property :: "('d, 's) world \<Rightarrow> string \<Rightarrow> ('d, 's) property" where
  "get_property w t =
     (case handlers w t of
        Some hs \<Rightarrow> Own hs
      | None \<Rightarrow> if t \<in> set Object_prototype then Inherited else Absent)"

text \<open>
  The loop \<open>for (const handler of ...) handler(message.data)\<close>: the handlers run in
  the order of the array, each on the state the one before left, and the first exception
  ends the loop. \<open>in_app\<close> is a completion of the handlers as one of the whole world.
\<close>

fun for_of :: "('d, 's) handler list \<Rightarrow> 'd \<Rightarrow> 's \<Rightarrow> 's completion" where
  "for_of [] d s = Normal s"
| "for_of (h # hs) d s =
     (case h d s of
        Normal s' \<Rightarrow> for_of hs d s'
      | Raise e s' \<Rightarrow> Raise e s')"

definition in_app :: "'s completion \<Rightarrow> ('d, 's) world \<Rightarrow> ('d, 's) world completion" where
  "in_app c w =
     (case c of
        Normal s \<Rightarrow> Normal (w\<lparr>app := s\<rparr>)
      | Raise e s \<Rightarrow> Raise e (w\<lparr>app := s\<rparr>))"

text \<open>The body of the \<open>try\<close> block of \<open>onMessage\<close>, then \<open>onMessage\<close> with its \<open>catch\<close>.\<close>

definition onMessage_try :: "'d frame \<Rightarrow> ('d, 's) world \<Rightarrow> ('d, 's) world completion" where
  "onMessage_try event w =
     (case event of
        Malformed \<Rightarrow> Raise SyntaxError w
      | Null_value \<Rightarrow> Raise TypeError w
      | Value t d \<Rightarrow>
          if t = Str ''pong'' then Normal w
          else
            (case get_property w (property_key t) of
               Own hs \<Rightarrow> in_app (for_of hs d (app w)) w
             | Inherited \<Rightarrow> Raise TypeError w
             | Absent \<Rightarrow> Normal w))"

definition try_catch ::
  "'a completion \<Rightarrow> (exn \<Rightarrow> 'a \<Rightarrow> 'a completion) \<Rightarrow> 'a completion" where
  "try_catch c h = (case c of Normal a \<Rightarrow> Normal a | Raise e a \<Rightarrow> h e a)"

definition onMessage :: "'d frame \<Rightarrow> ('d, 's) world \<Rightarrow> ('d, 's) world completion" where
  "onMessage event w =
     try_catch (onMessage_try event w)
       (\<lambda>error w'. Normal (emit (Console (Processing_error error)) w'))"

definition addMessageHandler ::
  "string \<Rightarrow> ('d, 's) handler \<Rightarrow> ('d, 's) world \<Rightarrow> ('d, 's) world completion" where
  "addMessageHandler t handler w =
     (case get_property w t of
        Own hs \<Rightarrow> Normal (w\<lparr>handlers := (handlers w)(t \<mapsto> hs @ [handler])\<rparr>)
      | Inherited \<Rightarrow> Raise TypeError w
      | Absent \<Rightarrow> Normal w)"

definition sendMessage :: "out_msg \<Rightarrow> ('d, 's) world \<Rightarrow> ('d, 's) world completion" where
  "sendMessage message w =
     (if isConnected w
      then (case socket w of
              Some k \<Rightarrow> Normal (emit (Socket_send k message) w)
            | None \<Rightarrow> Raise TypeError w)
      else Normal (emit (Console Cannot_send) w))"

definition disconnect :: "('d, 's) world \<Rightarrow> ('d, 's) world" where
  "disconnect w =
     (let w1 = (case socket w of
                  Some k \<Rightarrow> (emit (Socket_close k (Some 1000)) w)\<lparr>socket := None\<rparr>
                | None \<Rightarrow> w);
          w2 = clearInterval (pingInterval w1) w1
      in updateConnectionStatus False (w2\<lparr>isConnected := False\<rparr>))"

subsection \<open>Callbacks and events\<close>

text \<open>
  The callback that \<open>attemptReconnect\<close> hands to \<open>setTimeout\<close>, run when the \<open>i\<close>-th pending
  timeout fires; the callback of the ping interval, with the current time as a text; and
  the listener for \<open>visibilitychange\<close>, with whether the page is visible now.
\<close>

definition reconnect_timeout :: "nat \<Rightarrow> ('d, 's) world \<Rightarrow> ('d, 's) world" where
  "reconnect_timeout i w =
     (if i < length (pending w)
      then connect (emit (Console Reconnecting)
                      (w\<lparr>pending := take i (pending w) @ drop (Suc i) (pending w)\<rparr>))
      else w)"

definition ping_tick :: "string \<Rightarrow> ('d, 's) world \<Rightarrow> ('d, 's) world completion" where
  "ping_tick now w = (if isConnected w then sendMessage (Ping now) w else Normal w)"

definition visibilitychange :: "bool \<Rightarrow> ('d, 's) world \<Rightarrow> ('d, 's) world" where
  "visibilitychange visible w = (if visible \<and> \<not> isConnected w then connect w else w)"

text \<open>
  Everything that can happen to the client: a call of one of its methods from outside, an
  event of a socket, a timer. An exception that leaves a callback goes to the browser,
  which reports it and carries on; one that leaves \<open>addMessageHandler\<close> goes to its caller.
\<close>

datatype ('d, 's) event =
    Call_connect
  | Call_disconnect
  | Call_addMessageHandler string "('d, 's) handler"
  | Socket_open
  | Socket_closed nat
  | Socket_error
  | Socket_message "'d frame"
  | Timeout_fires nat
  | Interval_fires string
  | Visibility bool

fun state_of :: "'a completion \<Rightarrow> 'a" where
  "state_of (Normal a) = a"
| "state_of (Raise e a) = a"

fun step :: "('d, 's) event \<Rightarrow> ('d, 's) world \<Rightarrow> ('d, 's) world" where
  "step Call_connect w = connect w"
| "step Call_disconnect w = disconnect w"
| "step (Call_addMessageHandler t h) w = state_of (addMessageHandler t h w)"
| "step Socket_open w = onOpen w"
| "step (Socket_closed code) w = onClose code w"
| "step Socket_error w = onError w"
| "step (Socket_message f) w = state_of (onMessage f w)"
| "step (Timeout_fires i) w = reconnect_timeout i w"
| "step (Interval_fires now) w = state_of (ping_tick now w)"
| "step (Visibility visible) w = visibilitychange visible w"

definition run :: "('d, 's) event list \<Rightarrow> ('d, 's) world \<Rightarrow> ('d, 's) world" where
  "run evs w = fold step evs w"

text \<open>The delays handed to \<open>setTimeout\<close> so far, and the connections opened so far.\<close>

definition scheduled :: "('d, 's) world \<Rightarrow> rat list" where
  "scheduled w = concat (map (\<lambda>e. case e of Set_timeout d \<Rightarrow> [d] | _ \<Rightarrow> []) (effects w))"

definition opened :: "('d, 's) world \<Rightarrow> string list" where
  "opened w = concat (map (\<lambda>e. case e of New_WebSocket u \<Rightarrow> [u] | _ \<Rightarrow> []) (effects w))"

text \<open>
  The handlers registered for a message type: the array \<open>this.handlers\<close> holds under that
  name, and none for a name it does not hold.
\<close>

definition registered :: "('d, 's) world \<Rightarrow> string \<Rightarrow> ('d, 's) handler list" where
  "registered w t = (case handlers w t of Some hs \<Rightarrow> hs | None \<Rightarrow> [])"

text \<open>
  A run of failed connections: the connection closes with the given code, the reconnect
  timeout fires and \<open>connect\<close> runs, and the next connection closes in turn.
\<close>

definition failures :: "nat list \<Rightarrow> ('d, 's) event list" where
  "failures codes = concat (map (\<lambda>code. [Socket_closed code, Timeout_fires 0]) codes)"

subsection \<open>A concrete page\<close>

text \<open>
  The client as the constructor leaves it on a page served over http, with handlers that
  write their name into a log: one returns, the other throws.
\<close>

definition page :: "(unit, string list) world" where
  "page = constructor ''http:'' ''localhost:8000'' (Some (''Disconnected'', [])) []"

definition recording :: "string \<Rightarrow> (unit, string list) handler" where
  "recording name d s = Normal (s @ [name])"

definition throwing :: "string \<Rightarrow> (unit, string list) handler" where
  "throwing name d s = Raise (Thrown name) (s @ [name])"

text \<open>
  The same page once it has connected and the chart has registered a handler for
  \<open>zone_updates\<close>.
\<close>

definition listening_page :: "(unit, string list) world" where
  "listening_page =
     run [Call_connect, Socket_open, Call_addMessageHandler ''zone_updates'' (recording ''chart'')]
       page"

section \<open>The map controller (map.js) and the chart controller (ui.js)\<close>

subsection \<open>Entities\<close>

text \<open>
  The entities as the server sends them, with the members the code reads. Numbers are
  rationals; \<open>demand_level\<close> is an integer from 0 to 10 by the comment on the colour scale,
  and it indexes that scale. \<open>vehicle_type\<close>, \<open>speed\<close> and the \<open>driver_id\<close> of a request may
  be missing, which the code provides for. \<open>created_at\<close> is the time value of
  \<open>new Date(request.created_at)\<close>. The member \<open>id\<close> is \<open>driver_id\<close> for a driver and
  \<open>request_id\<close> for a request.
\<close>

record zone =
  zone_id :: string
  demand_level :: int
  is_surge :: bool
  current_requests :: int
  drivers_count :: int

record driver =
  driver_id :: string
  driver_name :: string
  driver_status :: string
  vehicle_type :: "string option"
  speed :: "rat option"
  heading :: rat
  driver_coordinates :: "rat \<times> rat"

record request =
  request_id :: string
  request_status :: string
  created_at :: int
  assigned_driver :: "string option"
  pickup_coordinates :: "rat \<times> rat"

subsection \<open>Arrays\<close>

text \<open>
  \<open>Array.prototype.sort\<close> with a comparator: the sort is stable, so for a comparator that
  orders the elements consistently, as the three comparators of this code do, the result
  is the one sorted arrangement that keeps elements that compare equal in their order. It
  is computed here by insertion from the right: an element goes before the first element
  it does not compare greater than.
\<close>

fun insert_cmp :: "('a \<Rightarrow> 'a \<Rightarrow> int) \<Rightarrow> 'a \<Rightarrow> 'a list \<Rightarrow> 'a list" where
  "insert_cmp cmp x [] = [x]"
| "insert_cmp cmp x (y # ys) =
     (if cmp x y \<le> 0 then x # y # ys else y # insert_cmp cmp x ys)"

definition Array_sort :: "('a \<Rightarrow> 'a \<Rightarrow> int) \<Rightarrow> 'a list \<Rightarrow> 'a list" where
  "Array_sort cmp xs = foldr (insert_cmp cmp) xs []"

text \<open>\<open>s.slice(-4)\<close> on a string, and \<open>forEach\<close> with a callback that may throw.\<close>

definition slice_last4 :: "string \<Rightarrow> string" where
  "slice_last4 s = drop (length s - 4) s"

fun forEach :: "('a \<Rightarrow> 's \<Rightarrow> 's completion) \<Rightarrow> 'a list \<Rightarrow> 's \<Rightarrow> 's completion" where
  "forEach f [] s = Normal s"
| "forEach f (x # xs) s =
     (case f x s of
        Normal s' \<Rightarrow> forEach f xs s'
      | Raise e s' \<Rightarrow> Raise e s')"

subsection \<open>Leaflet objects\<close>

text \<open>
  A marker with what the code gives it: its position as (lat, lon), its icon and the
  content of its popup. The texts are kept as the values they are made of. A polygon has
  its colour, its fill opacity, whether its path carries the class \<open>surge\<close>, and its popup.
\<close>

datatype icon = Driver_icon string rat | Request_icon

datatype speed_text = ToFixed1 rat | Zero_text

datatype popup =
    Driver_popup string string string speed_text
  | Request_popup string int "string option"
  | Zone_popup string int int int bool

record marker =
  latlng :: "rat \<times> rat"
  marker_icon :: icon
  marker_popup :: popup

record polygon =
  color :: string
  fillOpacity :: rat
  surge_class :: bool
  polygon_popup :: popup

subsection \<open>The state of the map controller\<close>

text \<open>
  \<open>markers.drivers\<close>, \<open>markers.requests\<close> and \<open>zonePolygons\<close> are objects used as
  dictionaries from an id to a Leaflet object, and the layer groups hold Leaflet objects
  in the order they were added. Leaflet objects are shared between a dictionary and a
  layer group and updated in place, so the state holds references to them and a store
  for each kind. The lists of the sidebar are \<open>None\<close> when the page lacks the element, and
  otherwise the entities listed in it.
\<close>

record mapstate =
  markers_drivers :: "string \<rightharpoonup> nat"
  markers_requests :: "string \<rightharpoonup> nat"
  zonePolygons :: "string \<rightharpoonup> nat"
  layers_zones :: "nat list"
  layers_drivers :: "nat list"
  layers_requests :: "nat list"
  marker_store :: "nat \<rightharpoonup> marker"
  polygon_store :: "nat \<rightharpoonup> polygon"
  next_ref :: nat
  surgeList :: "zone list option"
  driverList :: "driver list option"
  requestList :: "request list option"

text \<open>
  Reading a member of a dictionary finds an own property, or one inherited from
  \<open>Object.prototype\<close>, or nothing. Writing a member makes an own property, except that
  writing \<open>__proto__\<close> sets the prototype and makes none (the model does not follow what
  that does to later reads).
\<close>

datatype 'a member = Own_member 'a | Inherited_member | No_member

definition get_member :: "(string \<rightharpoonup> 'a) \<Rightarrow> string \<Rightarrow> 'a member" where
  "get_member obj k =
     (case obj k of
        Some v \<Rightarrow> Own_member v
      | None \<Rightarrow> if k \<in> set Object_prototype then Inherited_member else No_member)"

definition set_member :: "(string \<rightharpoonup> 'a) \<Rightarrow> string \<Rightarrow> 'a \<Rightarrow> (string \<rightharpoonup> 'a)" where
  "set_member obj k v = (if k = ''__proto__'' then obj else obj(k \<mapsto> v))"

text \<open>\<open>L.marker(...)\<close>: a new object, known by the next free reference.\<close>

definition new_marker :: "marker \<Rightarrow> mapstate \<Rightarrow> nat \<times> mapstate" where
  "new_marker mk m =
     (next_ref m,
      m\<lparr>marker_store := (marker_store m)(next_ref m \<mapsto> mk), next_ref := Suc (next_ref m)\<rparr>)"

subsection \<open>Zones\<close>

definition demandColors :: "string list" where
  "demandColors =
     [''#f7fcf5'', ''#e5f5e0'', ''#c7e9c0'', ''#a1d99b'', ''#74c476'', ''#41ab5d'',
      ''#238b45'', ''#006d2c'', ''#00441b'', ''#7a0177'', ''#49006a'']"

definition getZoneColor :: "int \<Rightarrow> string" where
  "getZoneColor demandLevel = demandColors ! nat (min 10 (max 0 demandLevel))"

definition zone_popup :: "zone \<Rightarrow> popup" where
  "zone_popup z =
     Zone_popup (slice_last4 (zone_id z)) (demand_level z) (current_requests z)
       (drivers_count z) (is_surge z)"

text \<open>
  The body of the loop of \<open>updateZones\<close>. A zone whose id names an inherited property makes
  \<open>polygon.setStyle\<close> a call of something that is not a function.
\<close>

definition update_zone :: "zone \<Rightarrow> mapstate \<Rightarrow> mapstate completion" where
  "update_zone z m =
     (case get_member (zonePolygons m) (zone_id z) of
        Own_member r \<Rightarrow>
          Normal (m\<lparr>polygon_store := (polygon_store m)
                      (r \<mapsto> \<lparr>color = getZoneColor (demand_level z),
                              fillOpacity = (if is_surge z then 6 / 10 else 3 / 10),
                              surge_class = is_surge z,
                              polygon_popup = zone_popup z\<rparr>)\<rparr>)
      | Inherited_member \<Rightarrow> Raise TypeError m
      | No_member \<Rightarrow> Normal m)"

definition surgeZones :: "zone list \<Rightarrow> zone list" where
  "surgeZones zones =
     Array_sort (\<lambda>a b. demand_level b - demand_level a) (filter is_surge zones)"

definition updateSurgeList :: "zone list \<Rightarrow> mapstate \<Rightarrow> mapstate" where
  "updateSurgeList zones m =
     (case surgeList m of
        None \<Rightarrow> m
      | Some _ \<Rightarrow> m\<lparr>surgeList := Some (surgeZones zones)\<rparr>)"

definition updateZones :: "zone list \<Rightarrow> mapstate \<Rightarrow> mapstate completion" where
  "updateZones zones m =
     (case forEach update_zone zones m of
        Normal m' \<Rightarrow> Normal (updateSurgeList zones m')
      | Raise e m' \<Rightarrow> Raise e m')"

subsection \<open>Drivers\<close>

text \<open>
  \<open>createDriverMarker\<close> calls \<open>driver.speed.toFixed(1)\<close>, which throws when the driver has
  no speed, and prints a missing vehicle type as \<open>undefined\<close>. The update of an existing
  marker provides for both.
\<close>

definition createDriverMarker :: "driver \<Rightarrow> exn + marker" where
  "createDriverMarker d =
     (let (lon, lat) = driver_coordinates d
      in case speed d of
           None \<Rightarrow> Inl TypeError
         | Some v \<Rightarrow>
             Inr \<lparr>latlng = (lat, lon),
                  marker_icon = Driver_icon (driver_status d) (heading d),
                  marker_popup =
                    Driver_popup (driver_name d) (driver_status d)
                      (case vehicle_type d of Some t \<Rightarrow> t | None \<Rightarrow> ''undefined'')
                      (ToFixed1 v)\<rparr>)"

definition updated_driver_marker :: "driver \<Rightarrow> marker" where
  "updated_driver_marker d =
     (let (lon, lat) = driver_coordinates d
      in \<lparr>latlng = (lat, lon),
          marker_icon = Driver_icon (driver_status d) (heading d),
          marker_popup =
            Driver_popup (driver_name d) (driver_status d)
              (case vehicle_type d of
                 Some t \<Rightarrow> if t = [] then ''Unknown'' else t
               | None \<Rightarrow> ''Unknown'')
              (case speed d of
                 Some v \<Rightarrow> if v = 0 then Zero_text else ToFixed1 v
               | None \<Rightarrow> Zero_text)\<rparr>)"

text \<open>The body of the loop of \<open>updateDrivers\<close>.\<close>

definition update_driver :: "driver \<Rightarrow> mapstate \<Rightarrow> mapstate completion" where
  "update_driver d m =
     (case get_member (markers_drivers m) (driver_id d) of
        Own_member r \<Rightarrow>
          Normal (m\<lparr>marker_store := (marker_store m)(r \<mapsto> updated_driver_marker d)\<rparr>)
      | Inherited_member \<Rightarrow> Raise TypeError m
      | No_member \<Rightarrow>
          (case createDriverMarker d of
             Inl e \<Rightarrow> Raise e m
           | Inr mk \<Rightarrow>
               let (r, m1) = new_marker mk m
               in Normal (m1\<lparr>markers_drivers := set_member (markers_drivers m1) (driver_id d) r,
                             layers_drivers := layers_drivers m1 @ [r]\<rparr>)))"

definition topDrivers :: "driver list \<Rightarrow> driver list" where
  "topDrivers drivers =
     take 10
       (Array_sort
          (\<lambda>a b. if driver_status a = ''available'' \<and> driver_status b \<noteq> ''available'' then - 1
                 else if driver_status a \<noteq> ''available'' \<and> driver_status b = ''available'' then 1
                 else 0)
          drivers)"

definition updateDriverList :: "driver list \<Rightarrow> mapstate \<Rightarrow> mapstate" where
  "updateDriverList drivers m =
     (case driverList m of
        None \<Rightarrow> m
      | Some _ \<Rightarrow> m\<lparr>driverList := Some (topDrivers drivers)\<rparr>)"

definition updateDrivers :: "driver list \<Rightarrow> mapstate \<Rightarrow> mapstate completion" where
  "updateDrivers drivers m =
     (case forEach update_driver drivers m of
        Normal m' \<Rightarrow> Normal (updateDriverList drivers m')
      | Raise e m' \<Rightarrow> Raise e m')"

subsection \<open>Ride requests\<close>

definition active :: "request \<Rightarrow> bool" where
  "active req = (request_status req \<in> set [''pending'', ''accepted'', ''in_progress''])"

definition createRequestMarker :: "request \<Rightarrow> marker" where
  "createRequestMarker req =
     (let (pickupLon, pickupLat) = pickup_coordinates req
      in \<lparr>latlng = (pickupLat, pickupLon),
          marker_icon = Request_icon,
          marker_popup =
            Request_popup (request_status req) (created_at req)
              (case assigned_driver req of
                 Some d \<Rightarrow> if d = [] then None else Some d
               | None \<Rightarrow> None)\<rparr>)"

text \<open>The body of the loop of \<open>updateRequests\<close>.\<close>

definition add_request :: "request \<Rightarrow> mapstate \<Rightarrow> mapstate" where
  "add_request req m =
     (if active req
      then
        let (r, m1) = new_marker (createRequestMarker req) m
        in m1\<lparr>markers_requests := set_member (markers_requests m1) (request_id req) r,
              layers_requests := layers_requests m1 @ [r]\<rparr>
      else m)"

definition activeRequests :: "request list \<Rightarrow> request list" where
  "activeRequests requests = filter active requests"

definition topRequests :: "request list \<Rightarrow> request list" where
  "topRequests requests =
     take 5 (Array_sort (\<lambda>a b. created_at b - created_at a) (activeRequests requests))"

definition updateRequestList :: "request list \<Rightarrow> mapstate \<Rightarrow> mapstate" where
  "updateRequestList requests m =
     (case requestList m of
        None \<Rightarrow> m
      | Some _ \<Rightarrow> m\<lparr>requestList := Some (topRequests requests)\<rparr>)"

definition updateRequests :: "request list \<Rightarrow> mapstate \<Rightarrow> mapstate" where
  "updateRequests requests m =
     updateRequestList requests
       (fold add_request requests (m\<lparr>layers_requests := [], markers_requests := Map.empty\<rparr>))"

subsection \<open>The chart of zone statistics\<close>

text \<open>
  \<open>statsChart\<close> is whether the chart exists; the other fields are \<open>demandData\<close>: the labels
  and, of its one dataset, the data and the two lists of colours.
\<close>

record uistate =
  statsChart :: bool
  labels :: "string list"
  dataset_data :: "int list"
  backgroundColor :: "string list"
  borderColor :: "string list"

definition sortedZones :: "zone list \<Rightarrow> zone list" where
  "sortedZones zones = Array_sort (\<lambda>a b. demand_level b - demand_level a) zones"

definition topZones :: "zone list \<Rightarrow> zone list" where
  "topZones zones = take 10 (sortedZones zones)"

definition updateZoneStats :: "zone list \<Rightarrow> uistate \<Rightarrow> uistate" where
  "updateZoneStats zones u =
     (if \<not> statsChart u then u
      else
        u\<lparr>labels := map (\<lambda>z. slice_last4 (zone_id z)) (topZones zones),
          dataset_data := map demand_level (topZones zones),
          backgroundColor :=
            map (\<lambda>z. if is_surge z then ''rgba(231, 76, 60, 0.5)'' else ''rgba(52, 152, 219, 0.5)'')
              (topZones zones),
          borderColor :=
            map (\<lambda>z. if is_surge z then ''rgba(231, 76, 60, 1)'' else ''rgba(52, 152, 219, 1)'')
              (topZones zones)\<rparr>)"

subsection \<open>Concrete entities\<close>

definition zoneA :: zone where
  "zoneA = \<lparr>zone_id = ''A'', demand_level = 3, is_surge = False, current_requests = 1, drivers_count = 2\<rparr>"

definition zoneB :: zone where
  "zoneB = \<lparr>zone_id = ''B'', demand_level = 9, is_surge = True, current_requests = 7, drivers_count = 1\<rparr>"

definition zoneC :: zone where
  "zoneC = \<lparr>zone_id = ''C'', demand_level = 9, is_surge = True, current_requests = 5, drivers_count = 0\<rparr>"

definition a_driver :: "string \<Rightarrow> driver" where
  "a_driver i =
     \<lparr>driver_id = i, driver_name = ''Tan'', driver_status = ''available'',
      vehicle_type = Some ''car'', speed = Some 30, heading = 90,
      driver_coordinates = (1038198 / 10000, 13521 / 10000)\<rparr>"

definition a_request :: "string \<Rightarrow> string \<Rightarrow> request" where
  "a_request i status =
     \<lparr>request_id = i, request_status = status, created_at = 0, assigned_driver = None,
      pickup_coordinates = (1038198 / 10000, 13521 / 10000)\<rparr>"

definition empty_map :: mapstate where
  "empty_map =
     \<lparr>markers_drivers = Map.empty, markers_requests = Map.empty, zonePolygons = Map.empty,
      layers_zones = [], layers_drivers = [], layers_requests = [],
      marker_store = Map.empty, polygon_store = Map.empty, next_ref = 0,
      surgeList = Some [], driverList = Some [], requestList = Some []\<rparr>"

text \<open>
  A map on which the driver \<open>d1\<close> has a marker and the zone \<open>A\<close> has a polygon.
\<close>

definition a_map :: mapstate where
  "a_map =
     empty_map
       \<lparr>markers_drivers := [''d1'' \<mapsto> 0],
        zonePolygons := [''A'' \<mapsto> 1],
        layers_zones := [1],
        layers_drivers := [0],
        marker_store := [0 \<mapsto> updated_driver_marker (a_driver ''d1'')],
        polygon_store :=
          [1 \<mapsto> \<lparr>color = getZoneColor 3, fillOpacity = 3 / 10, surge_class = False,
                      polygon_popup = zone_popup zoneA\<rparr>],
        next_ref := 2\<rparr>"

section \<open>Properties of the transport client and message router\<close>

lemmas client_defs =
  emit_def connect_def updateConnectionStatus_def startPingInterval_def clearInterval_def
  onOpen_def attemptReconnect_def onClose_def onError_def disconnect_def
  reconnect_timeout_def visibilitychange_def

lemmas message_defs =
  onMessage_def onMessage_try_def try_catch_def in_app_def get_property_def
  addMessageHandler_def sendMessage_def ping_tick_def

lemmas page_defs = page_def constructor_def recording_def throwing_def failures_def

subsection \<open>The reconnect counter and the timeouts\<close>

lemma connect_attempts: "reconnectAttempts (connect w) = reconnectAttempts w"
  by (simp add: client_defs Let_def split: option.splits)

lemma connect_scheduled: "scheduled (connect w) = scheduled w"
  by (simp add: scheduled_def client_defs Let_def split: option.splits)

lemma onOpen_attempts: "reconnectAttempts (onOpen w) = 0"
  by (simp add: client_defs Let_def split: option.splits)

lemma onClose_scheduled:
  "scheduled (onClose code w) =
     scheduled w @
       (if code \<noteq> 1000 \<and> reconnectAttempts w < maxReconnectAttempts w
        then [reconnectDelay w * (3 / 2) ^ reconnectAttempts w] else [])"
  by (simp add: scheduled_def client_defs Let_def split: option.splits)

lemma onClose_attempts:
  "reconnectAttempts (onClose code w) =
     (if code \<noteq> 1000 \<and> reconnectAttempts w < maxReconnectAttempts w
      then Suc (reconnectAttempts w) else reconnectAttempts w)"
  by (simp add: client_defs Let_def split: option.splits)

text \<open>No event changes the ceiling or the base delay the constructor sets.\<close>

lemma step_config:
  "maxReconnectAttempts (step e w) = maxReconnectAttempts w
   \<and> reconnectDelay (step e w) = reconnectDelay w"
proof (cases e)
  case (Socket_message f)
  then show ?thesis
    by (simp add: message_defs emit_def
        split: frame.splits property.splits completion.splits option.splits)
next
  case (Call_addMessageHandler t h)
  then show ?thesis
    by (simp add: message_defs split: property.splits option.splits)
next
  case (Interval_fires now)
  then show ?thesis
    by (simp add: message_defs emit_def split: option.splits)
qed (simp_all add: client_defs Let_def split: option.splits)

lemma run_config:
  "maxReconnectAttempts (run evs w) = maxReconnectAttempts w
   \<and> reconnectDelay (run evs w) = reconnectDelay w"
  by (induction evs arbitrary: w) (simp_all add: run_def step_config)

lemma fresh_config:
  "maxReconnectAttempts (run evs (constructor protocol host element s)) = 5
   \<and> reconnectDelay (run evs (constructor protocol host element s)) = 1000"
  by (simp add: run_config constructor_def)

text \<open>
  Once the counter has reached the ceiling, only an established connection moves it, and
  nothing is handed to \<open>setTimeout\<close> before that.
\<close>

lemma step_gave_up:
  assumes "maxReconnectAttempts w \<le> reconnectAttempts w" and "e \<noteq> Socket_open"
  shows "reconnectAttempts (step e w) = reconnectAttempts w \<and> scheduled (step e w) = scheduled w"
proof (cases e)
  case (Socket_message f)
  then show ?thesis
    by (simp add: scheduled_def message_defs emit_def
        split: frame.splits property.splits completion.splits option.splits)
next
  case (Call_addMessageHandler t h)
  then show ?thesis
    by (simp add: scheduled_def message_defs split: property.splits option.splits)
next
  case (Interval_fires now)
  then show ?thesis
    by (simp add: scheduled_def message_defs emit_def split: option.splits)
next
  case (Socket_closed code)
  then show ?thesis
    using assms(1) by (simp add: onClose_scheduled onClose_attempts)
qed (use assms in \<open>simp_all add: scheduled_def client_defs Let_def split: option.splits\<close>)

lemma run_gave_up:
  assumes "maxReconnectAttempts w \<le> reconnectAttempts w" and "Socket_open \<notin> set evs"
  shows "reconnectAttempts (run evs w) = reconnectAttempts w \<and> scheduled (run evs w) = scheduled w"
  using assms
proof (induction evs arbitrary: w)
  case Nil
  show ?case by (simp add: run_def)
next
  case (Cons e evs)
  have e: "e \<noteq> Socket_open" and evs: "Socket_open \<notin> set evs"
    using Cons.prems(2) by auto
  have s: "reconnectAttempts (step e w) = reconnectAttempts w \<and> scheduled (step e w) = scheduled w"
    using Cons.prems(1) e by (rule step_gave_up)
  have "maxReconnectAttempts (step e w) \<le> reconnectAttempts (step e w)"
    using s Cons.prems(1) by (simp add: step_config)
  from Cons.IH [OF this evs] s show ?case
    by (simp add: run_def)
qed

lemma reconnect_timeout_keeps:
  "reconnectAttempts (reconnect_timeout i w) = reconnectAttempts w
   \<and> scheduled (reconnect_timeout i w) = scheduled w"
  by (simp add: scheduled_def client_defs Let_def split: option.splits)

text \<open>
  A run of failures that stays within the ceiling: every close schedules one timeout, the
  \<open>n\<close>-th of them with the base delay times \<open>1.5\<close> to the number of attempts made before.
\<close>

lemma run_failures:
  assumes "reconnectAttempts w + length codes \<le> maxReconnectAttempts w" and "1000 \<notin> set codes"
  shows "scheduled (run (failures codes) w) =
           scheduled w @
             map (\<lambda>n. reconnectDelay w * (3 / 2) ^ (reconnectAttempts w + n)) [0..<length codes]
         \<and> reconnectAttempts (run (failures codes) w) = reconnectAttempts w + length codes"
  using assms
proof (induction codes arbitrary: w)
  case Nil
  show ?case by (simp add: run_def failures_def)
next
  case (Cons code codes)
  let ?w = "reconnect_timeout 0 (onClose code w)"
  have code: "code \<noteq> 1000" and lt: "reconnectAttempts w < maxReconnectAttempts w"
    using Cons.prems by auto
  have r: "run (failures (code # codes)) w = run (failures codes) ?w"
    by (simp add: run_def failures_def)
  have cfg: "maxReconnectAttempts ?w = maxReconnectAttempts w" "reconnectDelay ?w = reconnectDelay w"
    using step_config [of "Timeout_fires 0" "onClose code w"] step_config [of "Socket_closed code" w]
    by simp_all
  have att: "reconnectAttempts ?w = Suc (reconnectAttempts w)"
    using code lt by (simp add: reconnect_timeout_keeps onClose_attempts)
  have sch: "scheduled ?w = scheduled w @ [reconnectDelay w * (3 / 2) ^ reconnectAttempts w]"
    using code lt by (simp add: reconnect_timeout_keeps onClose_scheduled)
  have "reconnectAttempts ?w + length codes \<le> maxReconnectAttempts ?w" and "1000 \<notin> set codes"
    using Cons.prems att cfg by auto
  from Cons.IH [OF this] show ?case
    unfolding r att sch cfg
    by (simp add: map_upt_Suc del: upt_Suc)
qed

subsection \<open>Frames\<close>

text \<open>
  \<open>onMessage\<close> always completes: whatever the \<open>try\<close> block throws is caught and logged. It
  changes the state of the handlers and the trace, and nothing else.
\<close>

lemma onMessage_result:
  "onMessage f w =
     Normal (w\<lparr>app := app (state_of (onMessage_try f w)),
               effects := effects w @
                 (case onMessage_try f w of
                    Normal _ \<Rightarrow> []
                  | Raise e _ \<Rightarrow> [Console (Processing_error e)])\<rparr>)"
  by (simp add: message_defs emit_def
      split: frame.splits property.splits completion.splits option.splits)

text \<open>The trace is only ever written: what an event does never depends on it.\<close>

lemma onClose_effects_indep:
  "onClose code (w\<lparr>effects := l\<rparr>) =
     (onClose code w)\<lparr>effects := l @ drop (length (effects w)) (effects (onClose code w))\<rparr>"
proof (cases "connectionStatusElement w"; cases "pingInterval w";
    cases "code = 1000"; cases "maxReconnectAttempts w \<le> reconnectAttempts w")
qed (simp_all add: client_defs Let_def)

lemma step_effects_indep:
  "step e (w\<lparr>effects := l\<rparr>) =
     (step e w)\<lparr>effects := l @ drop (length (effects w)) (effects (step e w))\<rparr>"
proof (cases e)
  case (Socket_closed code)
  then show ?thesis
    by (simp add: onClose_effects_indep)
next
  case (Socket_message f)
  then show ?thesis
    by (simp add: message_defs emit_def
        split: frame.splits property.splits completion.splits option.splits)
next
  case (Call_addMessageHandler t h)
  then show ?thesis
    by (simp add: message_defs split: property.splits option.splits)
next
  case (Interval_fires now)
  then show ?thesis
    by (simp add: message_defs emit_def split: option.splits)
qed (simp_all add: connect_def disconnect_def onOpen_def onError_def reconnect_timeout_def
    visibilitychange_def emit_def updateConnectionStatus_def startPingInterval_def
    clearInterval_def wsUrl_def Let_def split: option.splits)

text \<open>
  So a world that differs in its trace only goes through the same events to a world that
  differs in its trace only, and the trace of the run is the old trace with what the run
  appends.
\<close>

lemma step_effects_append:
  "step e (w\<lparr>effects := l\<rparr>) =
     (step e (w\<lparr>effects := []\<rparr>))\<lparr>effects := l @ effects (step e (w\<lparr>effects := []\<rparr>))\<rparr>"
  using step_effects_indep [where e = e and w = "w\<lparr>effects := []\<rparr>" and l = l] by simp

lemma run_effects_append:
  "run evs (w\<lparr>effects := l\<rparr>) =
     (run evs (w\<lparr>effects := []\<rparr>))\<lparr>effects := l @ effects (run evs (w\<lparr>effects := []\<rparr>))\<rparr>"
proof (induction evs arbitrary: w l)
  case Nil
  show ?case by (simp add: run_def)
next
  case (Cons e evs)
  let ?s = "step e (w\<lparr>effects := []\<rparr>)"
  have 1: "run (e # evs) (w\<lparr>effects := l\<rparr>) = run evs (?s\<lparr>effects := l @ effects ?s\<rparr>)"
    using step_effects_append [where e = e and w = w and l = l] by (simp add: run_def)
  have 2: "run evs (?s\<lparr>effects := l @ effects ?s\<rparr>)
             = (run evs (?s\<lparr>effects := []\<rparr>))
                 \<lparr>effects := (l @ effects ?s) @ effects (run evs (?s\<lparr>effects := []\<rparr>))\<rparr>"
    by (rule Cons.IH)
  have 3: "run (e # evs) (w\<lparr>effects := []\<rparr>) = run evs ?s"
    by (simp add: run_def)
  let ?r = "run evs (?s\<lparr>effects := []\<rparr>)"
  have 4: "run evs ?s = ?r\<lparr>effects := effects ?s @ effects ?r\<rparr>"
    using Cons.IH [where w = ?s and l = "effects ?s"] by simp
  have 5: "effects (run evs ?s) = effects ?s @ effects ?r"
    using arg_cong [OF 4, of effects] by simp
  have 6: "(run evs ?s)\<lparr>effects := x\<rparr> = ?r\<lparr>effects := x\<rparr>" for x
    using arg_cong [OF 4, of "\<lambda>v. v\<lparr>effects := x\<rparr>"] by simp
  show ?case
    unfolding 1 2 3 5 6 by simp
qed

lemma run_effects_insert:
  "run evs (w\<lparr>effects := effects w @ l\<rparr>) =
     (run evs w)\<lparr>effects := effects w @ l @ drop (length (effects w)) (effects (run evs w))\<rparr>"
proof -
  let ?r = "run evs (w\<lparr>effects := []\<rparr>)"
  have a: "run evs w = ?r\<lparr>effects := effects w @ effects ?r\<rparr>"
    using run_effects_append [where evs = evs and w = w and l = "effects w"] by simp
  have b: "run evs (w\<lparr>effects := effects w @ l\<rparr>) = ?r\<lparr>effects := (effects w @ l) @ effects ?r\<rparr>"
    by (rule run_effects_append)
  have c: "effects (run evs w) = effects w @ effects ?r"
    using arg_cong [OF a, of effects] by simp
  have d: "(run evs w)\<lparr>effects := x\<rparr> = ?r\<lparr>effects := x\<rparr>" for x
    using arg_cong [OF a, of "\<lambda>v. v\<lparr>effects := x\<rparr>"] by simp
  show ?thesis
    unfolding b c d by simp
qed

text \<open>
  What \<open>onMessage\<close> does with a frame that is not JSON, is a pong, or has no handler
  registered: it logs the exception the \<open>try\<close> block threw, if any, and nothing else.
\<close>

lemma onMessage_dropped_log:
  assumes "f = Malformed \<or> (\<exists>d. f = Value (Str ''pong'') d)
           \<or> (\<exists>t d. f = Value t d \<and> registered w (property_key t) = [])"
  shows "onMessage f w =
           Normal (w\<lparr>effects := effects w @
             (case f of
                Malformed \<Rightarrow> [Console (Processing_error SyntaxError)]
              | Null_value \<Rightarrow> [Console (Processing_error TypeError)]
              | Value t d \<Rightarrow>
                  if t \<noteq> Str ''pong'' \<and> handlers w (property_key t) = None
                     \<and> property_key t \<in> set Object_prototype
                  then [Console (Processing_error TypeError)] else [])\<rparr>)"
  using assms
  by (auto simp: message_defs emit_def registered_def split: option.splits)

lemma for_of_append:
  "for_of (hs @ hs') d s =
     (case for_of hs d s of Normal s' \<Rightarrow> for_of hs' d s' | Raise e s' \<Rightarrow> Raise e s')"
  by (induction hs arbitrary: s) (auto split: completion.splits)

lemma for_of_throws:
  assumes "k < length hs"
    and "for_of (take k hs) d s = Normal sk"
    and "(hs ! k) d sk = Raise e s'"
  shows "for_of hs d s = Raise e s'"
proof -
  have "hs = take k hs @ (hs ! k) # drop (Suc k) hs"
    using assms(1) by (simp add: id_take_nth_drop)
  then have "for_of hs d s = for_of (take k hs @ (hs ! k) # drop (Suc k) hs) d s"
    by simp
  also have "\<dots> = Raise e s'"
    using assms(2,3) by (simp add: for_of_append)
  finally show ?thesis .
qed

text \<open>
  A type that is neither one of the three names of the constructor nor a name inherited
  from \<open>Object.prototype\<close> is not registered, without an exception; and whatever the name,
  a frame of a type that \<open>this.handlers\<close> does not hold reaches no handler.
\<close>

lemma addMessageHandler_unknown:
  assumes "handlers w t = None" and "t \<notin> set Object_prototype"
  shows "addMessageHandler t h w = Normal w"
  using assms by (simp add: message_defs)

lemma addMessageHandler_not_own:
  assumes "handlers w t = None"
  shows "state_of (addMessageHandler t h w) = w"
    and "app (state_of (onMessage (Value (Str t) d) (state_of (addMessageHandler t h w)))) = app w"
  using assms by (auto simp add: message_defs emit_def)

text \<open>The page that listens, evaluated.\<close>

lemma listening_page_fields:
  "effects listening_page = [New_WebSocket ''ws://localhost:8000/ws'', Console Established]"
  "handlers listening_page ''zone_updates'' = Some [recording ''chart'']"
  "handlers listening_page ''driver_updates'' = Some []"
  "handlers listening_page ''surge'' = None"
  "handlers listening_page ''constructor'' = None"
  "app listening_page = []"
  by (simp_all add: listening_page_def run_def page_defs client_defs message_defs wsUrl_def
      Object_prototype_def Let_def)

lemma listening_page_later:
  "app (run [Socket_message (Value (Str ''zone_updates'') ()), Socket_closed 1006] listening_page)
     = [''chart'']"
  "effects (run [Socket_message (Value (Str ''zone_updates'') ()), Socket_closed 1006] listening_page)
     = [New_WebSocket ''ws://localhost:8000/ws'', Console Established, Console (Closed 1006),
        Console (Attempting 1000 1), Set_timeout 1000]"
  by (simp_all add: listening_page_def run_def page_defs client_defs message_defs wsUrl_def
      Object_prototype_def Let_def)

subsection \<open>A handler that throws (claim C2)\<close>

text \<open>
  Two handlers are registered for \<open>zone_updates\<close>; the first writes its name and throws, the
  second writes its name. After a frame of that type the log holds the first name only:
  the second handler was not called.
\<close>

theorem handler_throws_counterexample:
  "registered
     (run [Call_addMessageHandler ''zone_updates'' (throwing ''first''),
           Call_addMessageHandler ''zone_updates'' (recording ''second'')] page)
     ''zone_updates'' = [throwing ''first'', recording ''second'']
   \<and> app (run [Call_addMessageHandler ''zone_updates'' (throwing ''first''),
               Call_addMessageHandler ''zone_updates'' (recording ''second''),
               Socket_message (Value (Str ''zone_updates'') ())] page) = [''first'']"
  by (simp add: run_def registered_def page_defs message_defs emit_def)

text \<open>
  Claim C2, as the code has it. The \<open>try\<close> block of \<open>onMessage\<close> is around the whole loop:
  when the handlers before the \<open>k\<close>-th return and the \<open>k\<close>-th throws, the loop ends there.
  \<open>onMessage\<close> completes, the exception is logged, the state is the one the \<open>k\<close>-th handler
  left and nothing else of the client changes, so later frames are dispatched as before;
  and the outcome is the same whatever handlers are registered after the \<open>k\<close>-th, since
  none of them is called.
\<close>

theorem handler_throws:
  assumes "handlers w t = Some hs" and "t \<noteq> ''pong''" and "k < length hs"
    and "for_of (take k hs) d (app w) = Normal sk"
    and "(hs ! k) d sk = Raise e s'"
  shows "onMessage (Value (Str t) d) w =
           Normal (w\<lparr>app := s', effects := effects w @ [Console (Processing_error e)]\<rparr>)
         \<and> (\<forall>later.
               onMessage (Value (Str t) d)
                 (w\<lparr>handlers := (handlers w)(t \<mapsto> take (Suc k) hs @ later)\<rparr>) =
               Normal (w\<lparr>handlers := (handlers w)(t \<mapsto> take (Suc k) hs @ later),
                          app := s', effects := effects w @ [Console (Processing_error e)]\<rparr>))"
proof -
  have a: "for_of hs d (app w) = Raise e s'"
    using assms(3-5) by (rule for_of_throws)
  have b: "for_of (take (Suc k) hs @ later) d (app w) = Raise e s'" for later
  proof -
    have "take (Suc k) hs = take k hs @ [hs ! k]"
      using assms(3) by (simp add: take_Suc_conv_app_nth)
    then show ?thesis
      using assms(4,5) by (simp add: for_of_append)
  qed
  show ?thesis
    using a b assms(1,2) by (simp add: message_defs emit_def)
qed

theorem handler_throws_witness:
  "onMessage (Value (Str ''zone_updates'') ())
     (page\<lparr>handlers := (handlers page)
              (''zone_updates'' \<mapsto> [recording ''a'', throwing ''b'', recording ''c''])\<rparr>)
   = Normal (page\<lparr>handlers := (handlers page)
                      (''zone_updates'' \<mapsto> [recording ''a'', throwing ''b'', recording ''c'']),
                   app := [''a'', ''b''],
                   effects := [Console (Processing_error (Thrown ''b''))]\<rparr>)"
proof -
  let ?hs = "[recording ''a'', throwing ''b'', recording ''c'']"
  let ?w = "page\<lparr>handlers := (handlers page)(''zone_updates'' \<mapsto> ?hs)\<rparr>"
  have 1: "handlers ?w ''zone_updates'' = Some ?hs" by simp
  have 2: "''zone_updates'' \<noteq> ''pong''" by simp
  have 3: "1 < length ?hs" by simp
  have 4: "for_of (take 1 ?hs) () (app ?w) = Normal [''a'']"
    by (simp add: page_defs)
  have 5: "(?hs ! 1) () [''a''] = Raise (Thrown ''b'') [''a'', ''b'']"
    by (simp add: page_defs)
  show ?thesis
    using handler_throws [OF 1 2 3 4 5] by (simp add: page_defs)
qed

subsection \<open>A reconnect pending at \<open>disconnect()\<close> (claim C3)\<close>

text \<open>
  The connection is lost with code 1006, which schedules a reconnect after 1000 ms; then
  \<open>disconnect()\<close> is called; then the timeout fires. One connection had been opened before,
  and now there are two, with no call of \<open>connect()\<close> from outside in between.
\<close>

theorem disconnect_cancels_counterexample:
  "pending (run [Call_connect, Socket_open, Socket_closed 1006] page) = [1000]
   \<and> opened (run [Call_connect, Socket_open, Socket_closed 1006, Call_disconnect] page)
       = [''ws://localhost:8000/ws'']
   \<and> opened (run [Call_connect, Socket_open, Socket_closed 1006, Call_disconnect,
                  Timeout_fires 0] page)
       = [''ws://localhost:8000/ws'', ''ws://localhost:8000/ws'']"
  by (simp add: run_def opened_def page_defs client_defs wsUrl_def Let_def)

text \<open>
  Claim C3, as the code has it. \<open>disconnect()\<close> closes the socket it holds with code 1000
  and lets go of it, stops the ping interval and marks the client as not connected. It
  leaves the pending reconnect timeouts as they are: the client keeps no handle on them.
  When one of them fires after \<open>disconnect()\<close>, \<open>connect()\<close> runs and opens a connection.
\<close>

theorem disconnect_keeps_timeout:
  "pending (disconnect w) = pending w
   \<and> socket (disconnect w) = None
   \<and> isConnected (disconnect w) = False
   \<and> (\<forall>k. pingInterval w = Some k \<longrightarrow> k \<notin> set (intervals (disconnect w)))
   \<and> (\<forall>k. socket w = Some k \<longrightarrow> effects (disconnect w) = effects w @ [Socket_close k (Some 1000)])
   \<and> (\<forall>i. i < length (pending w) \<longrightarrow>
        opened (reconnect_timeout i (disconnect w)) = opened w @ [wsUrl w]
        \<and> socket (reconnect_timeout i (disconnect w)) = Some (nsockets w))"
  by (simp add: opened_def client_defs wsUrl_def Let_def split: option.splits)

theorem disconnect_keeps_timeout_witness:
  "pending (disconnect (run [Call_connect, Socket_open, Socket_closed 1006] page)) = [1000]
   \<and> pingInterval (run [Call_connect, Socket_open, Socket_closed 1006] page) = Some 0
   \<and> 0 \<notin> set (intervals (disconnect (run [Call_connect, Socket_open, Socket_closed 1006] page)))
   \<and> socket (run [Call_connect, Socket_open, Socket_closed 1006] page) = Some 0
   \<and> last (effects (disconnect (run [Call_connect, Socket_open, Socket_closed 1006] page)))
       = Socket_close 0 (Some 1000)
   \<and> opened (reconnect_timeout 0
               (disconnect (run [Call_connect, Socket_open, Socket_closed 1006] page)))
       = [''ws://localhost:8000/ws'', ''ws://localhost:8000/ws'']
   \<and> socket (reconnect_timeout 0
               (disconnect (run [Call_connect, Socket_open, Socket_closed 1006] page)))
       = Some 1"
proof -
  let ?w = "run [Call_connect, Socket_open, Socket_closed 1006] page"
  have w: "pending ?w = [1000]" "pingInterval ?w = Some 0" "socket ?w = Some 0"
    "opened ?w = [''ws://localhost:8000/ws'']" "wsUrl ?w = ''ws://localhost:8000/ws''"
    "nsockets ?w = 1"
    by (simp_all add: run_def opened_def page_defs client_defs wsUrl_def Let_def)
  show ?thesis
    using disconnect_keeps_timeout [of ?w] w by simp
qed

subsection \<open>\<open>connect()\<close> and the reconnect counter (claim C4)\<close>

text \<open>
  The client connects, loses the connection and fails five reconnects in a row, so the
  counter is 5 and the sixth close gives up. \<open>connect()\<close> is then called again: the counter
  is still 5, and when that attempt fails as well no reconnect is scheduled.
\<close>

theorem connect_resets_counterexample:
  "reconnectAttempts
     (run ([Call_connect, Socket_open] @ failures [1006, 1006, 1006, 1006, 1006]
           @ [Socket_closed 1006]) page) = 5
   \<and> reconnectAttempts
     (run ([Call_connect, Socket_open] @ failures [1006, 1006, 1006, 1006, 1006]
           @ [Socket_closed 1006] @ [Call_connect]) page) = 5
   \<and> scheduled
     (run ([Call_connect, Socket_open] @ failures [1006, 1006, 1006, 1006, 1006]
           @ [Socket_closed 1006] @ [Call_connect, Socket_closed 1006]) page)
     = scheduled
     (run ([Call_connect, Socket_open] @ failures [1006, 1006, 1006, 1006, 1006]
           @ [Socket_closed 1006] @ [Call_connect]) page)"
  by (simp add: run_def scheduled_def page_defs client_defs wsUrl_def Let_def)

text \<open>
  Claim C4, as the code has it. In every state \<open>connect()\<close> leaves the reconnect counter as
  it is; the counter goes back to 0 when the new connection is established. So after the
  client has given up, calling \<open>connect()\<close> again restores the budget of reconnects if that
  connection opens; if it closes without having opened, the counter stays at the ceiling
  and no reconnect is scheduled.
\<close>

theorem connect_keeps_counter:
  "reconnectAttempts (connect w) = reconnectAttempts w
   \<and> reconnectAttempts (onOpen (connect w)) = 0
   \<and> (maxReconnectAttempts w \<le> reconnectAttempts w \<longrightarrow>
        reconnectAttempts (onClose code (connect w)) = reconnectAttempts w
        \<and> scheduled (onClose code (connect w)) = scheduled (connect w))"
  using step_config [of Call_connect w]
  by (simp add: connect_attempts onOpen_attempts onClose_attempts onClose_scheduled)

theorem connect_keeps_counter_witness:
  "reconnectAttempts (connect (page\<lparr>reconnectAttempts := 5\<rparr>)) = 5
   \<and> reconnectAttempts (onOpen (connect (page\<lparr>reconnectAttempts := 5\<rparr>))) = 0
   \<and> reconnectAttempts (onClose 1006 (connect (page\<lparr>reconnectAttempts := 5\<rparr>))) = 5
   \<and> scheduled (onClose 1006 (connect (page\<lparr>reconnectAttempts := 5\<rparr>))) = []"
proof -
  let ?w = "page\<lparr>reconnectAttempts := 5\<rparr>"
  have "maxReconnectAttempts ?w \<le> reconnectAttempts ?w" and "scheduled (connect ?w) = []"
    by (simp_all add: page_defs scheduled_def client_defs Let_def)
  then show ?thesis
    using connect_keeps_counter [of ?w 1006] by simp
qed

subsection \<open>The backoff delays (claim C5)\<close>

text \<open>
  Claim C5. In a run of at most five failed connections of a client with the
  constructor's settings, starting with the counter at 0, the delay handed to
  \<open>setTimeout\<close> before the \<open>n\<close>-th reconnect is \<open>1000 * 1.5^(n-1)\<close> milliseconds: for five
  failures the delays are 1000, 1500, 2250, 3375 and 5062.5. The counter is incremented
  first and the delay computed from its new value, and nothing else enters the delay.
  (The delays are exact as rationals; each of them is a binary fraction that a double holds
  exactly.)
\<close>

theorem backoff_delays:
  assumes "reconnectDelay w = 1000" and "maxReconnectAttempts w = 5"
    and "reconnectAttempts w = 0" and "length codes \<le> 5" and "1000 \<notin> set codes"
  shows "scheduled (run (failures codes) w) =
           scheduled w @ map (\<lambda>n. 1000 * (3 / 2) ^ (n - 1)) [1..<Suc (length codes)]
         \<and> (length codes = 5 \<longrightarrow>
              scheduled (run (failures codes) w) = scheduled w @ [1000, 1500, 2250, 3375, 10125 / 2])
         \<and> (\<forall>code. code \<noteq> 1000 \<and> length codes < 5 \<longrightarrow>
              reconnectAttempts (onClose code (run (failures codes) w)) = Suc (length codes)
              \<and> scheduled (onClose code (run (failures codes) w)) =
                  scheduled (run (failures codes) w) @ [1000 * (3 / 2) ^ (Suc (length codes) - 1)])"
proof -
  have f: "scheduled (run (failures codes) w) =
             scheduled w @ map (\<lambda>n. 1000 * (3 / 2) ^ n) [0..<length codes]"
    and a: "reconnectAttempts (run (failures codes) w) = length codes"
    using run_failures [of w codes] assms by simp_all
  have "map (\<lambda>n. (1000::rat) * (3 / 2) ^ (n - 1)) [1..<Suc k] = map (\<lambda>n. 1000 * (3 / 2) ^ n) [0..<k]"
    for k
    by (induction k) simp_all
  with f have 1: "scheduled (run (failures codes) w) =
           scheduled w @ map (\<lambda>n. 1000 * (3 / 2) ^ (n - 1)) [1..<Suc (length codes)]"
    by simp
  have "[0..<5] = [0, 1, 2, 3, 4::nat]"
    by (simp add: upt_rec)
  then have "map (\<lambda>n. (1000::rat) * (3 / 2) ^ n) [0..<5] = [1000, 1500, 2250, 3375, 10125 / 2]"
    by (simp add: power_divide)
  with f have 2: "length codes = 5 \<longrightarrow>
      scheduled (run (failures codes) w) = scheduled w @ [1000, 1500, 2250, 3375, 10125 / 2]"
    by simp
  have cfg: "maxReconnectAttempts (run (failures codes) w) = 5"
    "reconnectDelay (run (failures codes) w) = 1000"
    using run_config [of "failures codes" w] assms by simp_all
  have 3: "\<forall>code. code \<noteq> 1000 \<and> length codes < 5 \<longrightarrow>
              reconnectAttempts (onClose code (run (failures codes) w)) = Suc (length codes)
              \<and> scheduled (onClose code (run (failures codes) w)) =
                  scheduled (run (failures codes) w) @ [1000 * (3 / 2) ^ (Suc (length codes) - 1)]"
    by (simp add: onClose_attempts onClose_scheduled a cfg)
  from 1 2 3 show ?thesis by blast
qed

theorem backoff_delays_witness:
  "scheduled (run (failures [1006, 1006, 1001, 1006, 1011]) (onOpen (connect page)))
     = [1000, 1500, 2250, 3375, 10125 / 2]
   \<and> scheduled (onClose 1006 (run (failures [1006, 1006]) (onOpen (connect page))))
     = [1000, 1500, 2250]"
proof -
  let ?w = "onOpen (connect page)"
  have 1: "reconnectDelay ?w = 1000" and 2: "maxReconnectAttempts ?w = 5"
    and 3: "reconnectAttempts ?w = 0" and s: "scheduled ?w = []"
    by (simp_all add: scheduled_def client_defs page_defs Let_def)
  have 4: "length [1006, 1006, 1001, 1006, 1011::nat] \<le> 5"
    and 5: "1000 \<notin> set [1006, 1006, 1001, 1006, 1011::nat]"
    and 6: "length [1006, 1006::nat] \<le> 5"
    and 7: "1000 \<notin> set [1006, 1006::nat]"
    by simp_all
  show ?thesis
    using backoff_delays [OF 1 2 3 4 5] backoff_delays [OF 1 2 3 6 7] s
    by (simp add: upt_rec)
qed

subsection \<open>When a close schedules a reconnect (claim C6)\<close>

text \<open>
  Claim C6. On a close event of a client whose ceiling is the constructor's 5, a timeout
  for a reconnect is scheduled exactly when the close code is not 1000 and the counter is
  below 5, and then it is one timeout. So a close with code 1000 schedules none; and once
  five reconnects in a row have failed, no further timeout is scheduled by whatever
  happens next, as long as no connection is established.
\<close>

theorem reconnect_scheduled_iff:
  assumes "maxReconnectAttempts w = 5"
  shows "(scheduled (onClose code w) \<noteq> scheduled w) = (code \<noteq> 1000 \<and> reconnectAttempts w < 5)
         \<and> length (scheduled (onClose code w)) =
             length (scheduled w) + (if code \<noteq> 1000 \<and> reconnectAttempts w < 5 then 1 else 0)
         \<and> scheduled (onClose 1000 w) = scheduled w
         \<and> (reconnectAttempts w = 0 \<and> length codes = 5 \<and> 1000 \<notin> set codes
              \<and> Socket_open \<notin> set evs \<longrightarrow>
              length (scheduled (run (failures codes) w)) = length (scheduled w) + 5
              \<and> scheduled (run evs (run (failures codes) w)) = scheduled (run (failures codes) w))"
proof -
  have 1: "(scheduled (onClose code w) \<noteq> scheduled w) = (code \<noteq> 1000 \<and> reconnectAttempts w < 5)"
    and 2: "length (scheduled (onClose code w)) =
             length (scheduled w) + (if code \<noteq> 1000 \<and> reconnectAttempts w < 5 then 1 else 0)"
    and 3: "scheduled (onClose 1000 w) = scheduled w"
    using assms by (simp_all add: onClose_scheduled)
  have 4: "length (scheduled (run (failures codes) w)) = length (scheduled w) + 5
           \<and> scheduled (run evs (run (failures codes) w)) = scheduled (run (failures codes) w)"
    if h: "reconnectAttempts w = 0" "length codes = 5" "1000 \<notin> set codes" "Socket_open \<notin> set evs"
  proof -
    have "scheduled (run (failures codes) w) =
            scheduled w @
              map (\<lambda>n. reconnectDelay w * (3 / 2) ^ (reconnectAttempts w + n)) [0..<length codes]"
      and a: "reconnectAttempts (run (failures codes) w) = 5"
      using run_failures [of w codes] assms h by simp_all
    then have l: "length (scheduled (run (failures codes) w)) = length (scheduled w) + 5"
      using h by simp
    have "maxReconnectAttempts (run (failures codes) w) \<le> reconnectAttempts (run (failures codes) w)"
      using a assms by (simp add: run_config)
    from run_gave_up [OF this h(4)] l show ?thesis by simp
  qed
  from 1 2 3 4 show ?thesis by blast
qed

theorem reconnect_scheduled_iff_witness:
  "scheduled (onClose 1006 (onOpen (connect page))) \<noteq> scheduled (onOpen (connect page))
   \<and> scheduled (onClose 1000 (onOpen (connect page))) = scheduled (onOpen (connect page))
   \<and> length (scheduled (run (failures [1006, 1006, 1006, 1006, 1006]) (onOpen (connect page)))) = 5
   \<and> scheduled (run [Socket_closed 1006, Visibility True, Socket_closed 1006]
                  (run (failures [1006, 1006, 1006, 1006, 1006]) (onOpen (connect page))))
     = scheduled (run (failures [1006, 1006, 1006, 1006, 1006]) (onOpen (connect page)))"
proof -
  let ?w = "onOpen (connect page)"
  let ?evs = "[Socket_closed 1006, Visibility True, Socket_closed 1006] :: (unit, string list) event list"
  have 1: "maxReconnectAttempts ?w = 5" and 2: "reconnectAttempts ?w = 0" and s: "scheduled ?w = []"
    by (simp_all add: scheduled_def client_defs page_defs Let_def)
  have 3: "length [1006, 1006, 1006, 1006, 1006::nat] = 5"
    and 4: "1000 \<notin> set [1006, 1006, 1006, 1006, 1006::nat]"
    and 5: "Socket_open \<notin> set ?evs"
    by simp_all
  show ?thesis
    using reconnect_scheduled_iff [OF 1, of 1006 "[1006, 1006, 1006, 1006, 1006]" ?evs]
      reconnect_scheduled_iff [OF 1, of 1000 "[]" "[]"] 2 3 4 5 s
    by simp
qed

subsection \<open>Frames that are dropped (claim C7)\<close>

text \<open>
  Claim C7. A frame that is not JSON, a frame whose type is \<open>pong\<close>, and a frame for whose
  type no handler is registered are dropped. \<open>onMessage\<close> completes without an exception
  and leaves the client and the state of the handlers as they were, whatever handlers are
  registered; all it does is log the exception of the \<open>try\<close> block, if there was one: the
  SyntaxError of \<open>JSON.parse\<close>, or the TypeError of iterating over a property that
  \<open>this.handlers\<close> only inherits. Every sequence of events after the frame then leaves the
  state it would have left without the frame, and the trace it would have left with that
  one log entry put in where the frame arrived.
\<close>

theorem dropped_frame:
  assumes "f = Malformed \<or> (\<exists>d. f = Value (Str ''pong'') d)
           \<or> (\<exists>t d. f = Value t d \<and> registered w (property_key t) = [])"
    and "logged = (case f of
                  Malformed \<Rightarrow> [Console (Processing_error SyntaxError)]
                | Null_value \<Rightarrow> [Console (Processing_error TypeError)]
                | Value t d \<Rightarrow>
                    if t \<noteq> Str ''pong'' \<and> handlers w (property_key t) = None
                       \<and> property_key t \<in> set Object_prototype
                    then [Console (Processing_error TypeError)] else [])"
  shows "onMessage f w = Normal (w\<lparr>effects := effects w @ logged\<rparr>)
         \<and> run (Socket_message f # evs) w =
             (run evs w)\<lparr>effects := effects w @ logged @ drop (length (effects w)) (effects (run evs w))\<rparr>"
proof -
  have res: "onMessage f w = Normal (w\<lparr>effects := effects w @ logged\<rparr>)"
    using onMessage_dropped_log [OF assms(1)] assms(2) by simp
  then have "run (Socket_message f # evs) w = run evs (w\<lparr>effects := effects w @ logged\<rparr>)"
    by (simp add: run_def)
  with res show ?thesis
    by (simp add: run_effects_insert)
qed

theorem dropped_frame_witness:
  "onMessage Malformed listening_page
     = Normal (listening_page\<lparr>effects := effects listening_page
                                   @ [Console (Processing_error SyntaxError)]\<rparr>)
   \<and> app (run [Socket_message Malformed, Socket_message (Value (Str ''zone_updates'') ()),
               Socket_closed 1006] listening_page) = [''chart'']
   \<and> effects (run [Socket_message Malformed, Socket_message (Value (Str ''zone_updates'') ()),
                   Socket_closed 1006] listening_page)
       = [New_WebSocket ''ws://localhost:8000/ws'', Console Established,
          Console (Processing_error SyntaxError), Console (Closed 1006),
          Console (Attempting 1000 1), Set_timeout 1000]
   \<and> onMessage (Value (Str ''pong'') ()) listening_page = Normal listening_page
   \<and> onMessage (Value (Str ''surge'') ()) listening_page = Normal listening_page
   \<and> onMessage (Value (Str ''driver_updates'') ()) listening_page = Normal listening_page
   \<and> effects (run [Socket_message (Value (Str ''surge'') ()),
                   Socket_message (Value (Str ''zone_updates'') ()), Socket_closed 1006] listening_page)
       = [New_WebSocket ''ws://localhost:8000/ws'', Console Established, Console (Closed 1006),
          Console (Attempting 1000 1), Set_timeout 1000]
   \<and> onMessage (Value (Str ''constructor'') ()) listening_page
       = Normal (listening_page\<lparr>effects := effects listening_page
                                     @ [Console (Processing_error TypeError)]\<rparr>)"
proof -
  let ?w = "listening_page"
  let ?evs = "[Socket_message (Value (Str ''zone_updates'') ()), Socket_closed 1006]
                :: (unit, string list) event list"
  note f = listening_page_fields
  have h1: "Malformed = Malformed \<or> (\<exists>d. Malformed = Value (Str ''pong'') (d::unit))
           \<or> (\<exists>t d. Malformed = Value t (d::unit) \<and> registered ?w (property_key t) = [])"
    by simp
  have h2: "Value (Str ''pong'') () = Malformed \<or> (\<exists>d. Value (Str ''pong'') () = Value (Str ''pong'') (d::unit))
           \<or> (\<exists>t d. Value (Str ''pong'') () = Value t (d::unit) \<and> registered ?w (property_key t) = [])"
    by simp
  have h3: "Value (Str ''surge'') () = Malformed \<or> (\<exists>d. Value (Str ''surge'') () = Value (Str ''pong'') (d::unit))
           \<or> (\<exists>t d. Value (Str ''surge'') () = Value t (d::unit) \<and> registered ?w (property_key t) = [])"
    by (simp add: registered_def f)
  have h4: "Value (Str ''driver_updates'') () = Malformed
           \<or> (\<exists>d. Value (Str ''driver_updates'') () = Value (Str ''pong'') (d::unit))
           \<or> (\<exists>t d. Value (Str ''driver_updates'') () = Value t (d::unit)
                 \<and> registered ?w (property_key t) = [])"
    by (simp add: registered_def f)
  have h5: "Value (Str ''constructor'') () = Malformed
           \<or> (\<exists>d. Value (Str ''constructor'') () = Value (Str ''pong'') (d::unit))
           \<or> (\<exists>t d. Value (Str ''constructor'') () = Value t (d::unit)
                 \<and> registered ?w (property_key t) = [])"
    by (simp add: registered_def f)
  note t1 = dropped_frame [OF h1 refl, of ?evs]
  note t2 = dropped_frame [OF h2 refl, of "[]"]
  note t3 = dropped_frame [OF h3 refl, of ?evs]
  note t4 = dropped_frame [OF h4 refl, of "[]"]
  note t5 = dropped_frame [OF h5 refl, of "[]"]
  have a1: "onMessage Malformed ?w
     = Normal (?w\<lparr>effects := effects ?w @ [Console (Processing_error SyntaxError)]\<rparr>)"
    using t1 [THEN conjunct1] by simp
  have r1: "run (Socket_message Malformed # ?evs) ?w =
             (run ?evs ?w)\<lparr>effects := effects ?w @ [Console (Processing_error SyntaxError)]
                @ drop (length (effects ?w)) (effects (run ?evs ?w))\<rparr>"
    using t1 [THEN conjunct2] by simp
  have a2: "app (run (Socket_message Malformed # ?evs) ?w) = [''chart'']"
    unfolding r1 by (simp add: listening_page_later)
  have a3: "effects (run (Socket_message Malformed # ?evs) ?w)
       = [New_WebSocket ''ws://localhost:8000/ws'', Console Established,
          Console (Processing_error SyntaxError), Console (Closed 1006),
          Console (Attempting 1000 1), Set_timeout 1000]"
    unfolding r1 by (simp add: listening_page_later f)
  have a4: "onMessage (Value (Str ''pong'') ()) ?w = Normal ?w"
    using t2 [THEN conjunct1] by simp
  have a5: "onMessage (Value (Str ''surge'') ()) ?w = Normal ?w"
    using t3 [THEN conjunct1] by (simp add: f Object_prototype_def)
  have a6: "onMessage (Value (Str ''driver_updates'') ()) ?w = Normal ?w"
    using t4 [THEN conjunct1] by (simp add: f)
  have r3: "run (Socket_message (Value (Str ''surge'') ()) # ?evs) ?w =
             (run ?evs ?w)\<lparr>effects := effects ?w @ drop (length (effects ?w)) (effects (run ?evs ?w))\<rparr>"
    using t3 [THEN conjunct2] by (simp add: f Object_prototype_def)
  have a7: "effects (run (Socket_message (Value (Str ''surge'') ()) # ?evs) ?w)
       = [New_WebSocket ''ws://localhost:8000/ws'', Console Established, Console (Closed 1006),
          Console (Attempting 1000 1), Set_timeout 1000]"
    unfolding r3 by (simp add: listening_page_later f)
  have a8: "onMessage (Value (Str ''constructor'') ()) ?w
       = Normal (?w\<lparr>effects := effects ?w @ [Console (Processing_error TypeError)]\<rparr>)"
    using t5 [THEN conjunct1] by (simp add: f Object_prototype_def)
  show ?thesis
    by (intro conjI; fact)
qed

subsection \<open>Registering a handler for another type (claim C10)\<close>

text \<open>
  Claim C10 at the types \<open>constructor\<close> and \<open>toString\<close>, which are outside the three names
  of the constructor. \<open>this.handlers\<close> inherits a property of each name, so the test
  \<open>type in this.handlers\<close> holds, the inherited value has no \<open>push\<close>, and the call throws a
  TypeError: the registry is as before, but the registration is not silently ignored.
\<close>

theorem addMessageHandler_inherited_name:
  "addMessageHandler ''constructor'' (recording ''h'') page = Raise TypeError page
   \<and> addMessageHandler ''toString'' (recording ''h'') page = Raise TypeError page"
  by (simp add: message_defs page_defs Object_prototype_def)

section \<open>Properties of the map controller and the chart controller\<close>

lemmas entity_defs =
  zoneA_def zoneB_def zoneC_def a_driver_def a_request_def empty_map_def a_map_def

lemmas map_defs =
  updateDrivers_def update_driver_def updateDriverList_def createDriverMarker_def
  updated_driver_marker_def new_marker_def get_member_def set_member_def
  updateZones_def update_zone_def updateSurgeList_def
  updateRequests_def add_request_def updateRequestList_def createRequestMarker_def
  active_def Object_prototype_def

subsection \<open>Sorting\<close>

text \<open>
  With the comparator \<open>(a, b) => key(b) - key(a)\<close> on integer keys, \<open>Array_sort\<close> is the
  stable sort of the library by the negated key.
\<close>

lemma insert_cmp_key:
  "insert_cmp (\<lambda>a b. key b - key a) x ys = insort_key (\<lambda>z. - key z) x (ys :: 'a list)"
  for key :: "'a \<Rightarrow> int"
  by (induction ys) simp_all

lemma Array_sort_key:
  "Array_sort (\<lambda>a b. key b - key a) xs = sort_key (\<lambda>z. - key z) xs"
  for key :: "'a \<Rightarrow> int"
  by (induction xs) (simp_all add: Array_sort_def insert_cmp_key)

lemma descending_sort_key:
  "sorted_wrt (\<lambda>a b. key b \<le> key a) (sort_key (\<lambda>z. - key z) xs)"
  for key :: "'a \<Rightarrow> int"
proof -
  have "sorted (map (\<lambda>z. - key z) (sort_key (\<lambda>z. - key z) xs))"
    by (rule sorted_sort_key)
  then show ?thesis
    by (simp add: sorted_map)
qed

lemma sortedZones_sort_key: "sortedZones zones = sort_key (\<lambda>z. - demand_level z) zones"
  by (simp add: sortedZones_def Array_sort_key)

lemma sortedZones_descending:
  "sorted_wrt (\<lambda>a b. demand_level b \<le> demand_level a) (sortedZones zones)"
  by (simp add: sortedZones_sort_key descending_sort_key)

lemma sortedZones_mset: "mset (sortedZones zones) = mset zones"
  by (simp add: sortedZones_sort_key)

lemma sortedZones_stable:
  "filter (\<lambda>z. demand_level z = k) (sortedZones zones) = filter (\<lambda>z. demand_level z = k) zones"
proof -
  have "filter (\<lambda>z. - demand_level z = - k) (sort_key (\<lambda>z. - demand_level z) zones)
        = filter (\<lambda>z. - demand_level z = - k) zones"
    by (rule sort_key_stable)
  then show ?thesis
    by (simp add: sortedZones_sort_key)
qed

lemma sorted_wrt_take_drop:
  assumes "sorted_wrt P xs" and "a \<in> set (take n xs)" and "b \<in> set (drop n xs)"
  shows "P a b"
proof -
  have "sorted_wrt P (take n xs @ drop n xs)"
    using assms(1) by simp
  then show ?thesis
    using assms(2,3) unfolding sorted_wrt_append by blast
qed

lemma top_example:
  "take 2 (sortedZones [zoneA, zoneB, zoneC]) = [zoneB, zoneC]"
  "drop 2 (sortedZones [zoneA, zoneB, zoneC]) = [zoneA]"
  "topZones [zoneA, zoneB, zoneC] = [zoneB, zoneC, zoneA]"
  by (simp_all add: topZones_def sortedZones_def Array_sort_def zoneA_def zoneB_def zoneC_def)

lemma prefix_filter_take: "prefix (filter P (take n xs)) (filter P xs)"
proof -
  have "filter P xs = filter P (take n xs) @ filter P (drop n xs)"
    by (metis append_take_drop_id filter_append)
  then show ?thesis
    by (simp add: prefix_def)
qed

lemma surgeZones_sorted: "surgeZones zones = sortedZones (filter is_surge zones)"
  by (simp add: surgeZones_def sortedZones_def)

subsection \<open>Requests\<close>

text \<open>
  The loop of \<open>updateRequests\<close>: each active request gets the next free reference, its
  marker goes into the store under it and at the end of the layer group, and what was in
  the store before stays.
\<close>

lemma proto_inherited: "''__proto__'' \<in> set Object_prototype"
  by (simp add: Object_prototype_def)

lemma fold_add_request:
  "layers_requests (fold add_request rs m)
     = layers_requests m @ [next_ref m ..< next_ref m + length (filter active rs)]
   \<and> next_ref (fold add_request rs m) = next_ref m + length (filter active rs)
   \<and> (\<forall>i < length (filter active rs).
         marker_store (fold add_request rs m) (next_ref m + i)
           = Some (createRequestMarker (filter active rs ! i)))
   \<and> (\<forall>r < next_ref m. marker_store (fold add_request rs m) r = marker_store m r)
   \<and> dom (markers_requests (fold add_request rs m))
       = dom (markers_requests m) \<union> (request_id ` {r \<in> set rs. active r} - {''__proto__''})"
proof (induction rs arbitrary: m)
  case Nil
  show ?case by simp
next
  case (Cons req rs)
  show ?case
  proof (cases "active req")
    case False
    then show ?thesis
      using Cons.IH [of m] by (auto simp: add_request_def)
  next
    case True
    let ?m = "add_request req m"
    have n: "next_ref ?m = Suc (next_ref m)"
      and l: "layers_requests ?m = layers_requests m @ [next_ref m]"
      and s: "marker_store ?m = (marker_store m)(next_ref m \<mapsto> createRequestMarker req)"
      and d: "dom (markers_requests ?m)
                = dom (markers_requests m) \<union> ({request_id req} - {''__proto__''})"
      using True by (auto simp: add_request_def new_marker_def set_member_def)
    note IH = Cons.IH [of ?m]
    have 1: "layers_requests (fold add_request (req # rs) m)
               = layers_requests m @ [next_ref m ..< next_ref m + length (filter active (req # rs))]"
    proof -
      have "[next_ref m ..< next_ref m + Suc k] = next_ref m # [Suc (next_ref m) ..< Suc (next_ref m) + k]"
        for k
        by (simp add: upt_conv_Cons del: upt_Suc)
      then show ?thesis
        using IH True n l by (simp del: upt_Suc)
    qed
    have 2: "next_ref (fold add_request (req # rs) m)
               = next_ref m + length (filter active (req # rs))"
      using IH True n by simp
    have 3: "marker_store (fold add_request (req # rs) m) (next_ref m + i)
               = Some (createRequestMarker (filter active (req # rs) ! i))"
      if "i < length (filter active (req # rs))" for i
    proof (cases i)
      case 0
      have "marker_store (fold add_request rs ?m) (next_ref m) = marker_store ?m (next_ref m)"
        using IH n by simp
      then show ?thesis
        using 0 True s by simp
    next
      case (Suc j)
      then have "j < length (filter active rs)"
        using that True by simp
      then have "marker_store (fold add_request rs ?m) (next_ref ?m + j)
                   = Some (createRequestMarker (filter active rs ! j))"
        using IH by blast
      then show ?thesis
        using Suc True n by simp
    qed
    have 4: "marker_store (fold add_request (req # rs) m) r = marker_store m r"
      if "r < next_ref m" for r
    proof -
      have "marker_store (fold add_request rs ?m) r = marker_store ?m r"
        using IH n that by simp
      then show ?thesis
        using s that by simp
    qed
    have 5: "dom (markers_requests (fold add_request (req # rs) m))
       = dom (markers_requests m) \<union> (request_id ` {r \<in> set (req # rs). active r} - {''__proto__''})"
      using IH d True by auto
    from 1 2 3 4 5 show ?thesis by blast
  qed
qed

lemma updateRequests_fields:
  "layers_requests (updateRequests rs m) = layers_requests (fold add_request rs (m\<lparr>layers_requests := [], markers_requests := Map.empty\<rparr>))"
  "markers_requests (updateRequests rs m) = markers_requests (fold add_request rs (m\<lparr>layers_requests := [], markers_requests := Map.empty\<rparr>))"
  "marker_store (updateRequests rs m) = marker_store (fold add_request rs (m\<lparr>layers_requests := [], markers_requests := Map.empty\<rparr>))"
  by (simp_all add: updateRequests_def updateRequestList_def split: option.splits)

lemma updateRequests_layer:
  "map (marker_store (updateRequests rs m)) (layers_requests (updateRequests rs m))
     = map (\<lambda>r. Some (createRequestMarker r)) (activeRequests rs)"
proof -
  let ?m = "m\<lparr>layers_requests := [], markers_requests := Map.empty\<rparr>"
  let ?n = "length (filter active rs)"
  note f = fold_add_request [of rs ?m]
  have "map (marker_store (fold add_request rs ?m)) [next_ref m ..< next_ref m + ?n]
          = map (\<lambda>r. Some (createRequestMarker r)) (filter active rs)"
  proof (rule nth_equalityI)
    show "length (map (marker_store (fold add_request rs ?m)) [next_ref m ..< next_ref m + ?n])
            = length (map (\<lambda>r. Some (createRequestMarker r)) (filter active rs))"
      by simp
  next
    fix i
    assume "i < length (map (marker_store (fold add_request rs ?m)) [next_ref m ..< next_ref m + ?n])"
    then have i: "i < ?n" by simp
    then have "marker_store (fold add_request rs ?m) (next_ref m + i)
                 = Some (createRequestMarker (filter active rs ! i))"
      using f by simp
    then show "map (marker_store (fold add_request rs ?m)) [next_ref m ..< next_ref m + ?n] ! i
                 = map (\<lambda>r. Some (createRequestMarker r)) (filter active rs) ! i"
      using i by simp
  qed
  then show ?thesis
    using f by (simp add: updateRequests_fields activeRequests_def)
qed

lemma updateRequests_dom:
  "dom (markers_requests (updateRequests rs m))
     = request_id ` {r \<in> set rs. active r} - {''__proto__''}"
  using fold_add_request [of rs "m\<lparr>layers_requests := [], markers_requests := Map.empty\<rparr>"]
  by (simp add: updateRequests_fields)

subsection \<open>Drivers\<close>

lemma update_driver_dom:
  assumes "update_driver d m = Normal m'"
  shows "dom (markers_drivers m') = insert (driver_id d) (dom (markers_drivers m))"
  using assms proto_inherited
  by (auto simp: update_driver_def get_member_def set_member_def new_marker_def
      split: option.splits sum.splits if_splits)

lemma update_driver_keeps:
  "dom (markers_drivers m) \<subseteq> dom (markers_drivers (state_of (update_driver d m)))"
  by (auto simp: update_driver_def get_member_def set_member_def new_marker_def
      split: option.splits sum.splits if_splits)

lemma forEach_update_driver_dom:
  assumes "forEach update_driver ds m = Normal m'"
  shows "dom (markers_drivers m') = dom (markers_drivers m) \<union> driver_id ` set ds"
  using assms
proof (induction ds arbitrary: m)
  case Nil
  then show ?case by simp
next
  case (Cons d ds)
  then obtain m1 where 1: "update_driver d m = Normal m1" and 2: "forEach update_driver ds m1 = Normal m'"
    by (auto split: completion.splits)
  from Cons.IH [OF 2] update_driver_dom [OF 1] show ?case by auto
qed

lemma forEach_update_driver_keeps:
  "dom (markers_drivers m) \<subseteq> dom (markers_drivers (state_of (forEach update_driver ds m)))"
proof (induction ds arbitrary: m)
  case Nil
  show ?case by simp
next
  case (Cons d ds)
  show ?case
  proof (cases "update_driver d m")
    case (Normal m1)
    then show ?thesis
      using Cons.IH [of m1] update_driver_keeps [of m d] by auto
  next
    case (Raise e m1)
    then show ?thesis
      using update_driver_keeps [of m d] by auto
  qed
qed

lemma updateDrivers_dom:
  assumes "updateDrivers ds m = Normal m'"
  shows "dom (markers_drivers m') = dom (markers_drivers m) \<union> driver_id ` set ds"
proof -
  obtain m1 where 1: "forEach update_driver ds m = Normal m1" and 2: "m' = updateDriverList ds m1"
    using assms by (auto simp: updateDrivers_def split: completion.splits)
  have "markers_drivers m' = markers_drivers m1"
    using 2 by (simp add: updateDriverList_def split: option.splits)
  then show ?thesis
    using forEach_update_driver_dom [OF 1] by simp
qed

lemma updateDrivers_keeps:
  "dom (markers_drivers m) \<subseteq> dom (markers_drivers (state_of (updateDrivers ds m)))"
proof -
  have "markers_drivers (state_of (updateDrivers ds m))
          = markers_drivers (state_of (forEach update_driver ds m))"
    by (simp add: updateDrivers_def updateDriverList_def split: completion.splits option.splits)
  then show ?thesis
    using forEach_update_driver_keeps [of m ds] by simp
qed

subsection \<open>Zones\<close>

lemma update_zone_polygons: "zonePolygons (state_of (update_zone z m)) = zonePolygons m"
  by (simp add: update_zone_def split: member.splits)

lemma forEach_update_zone_polygons:
  "zonePolygons (state_of (forEach update_zone zs m)) = zonePolygons m"
proof (induction zs arbitrary: m)
  case Nil
  show ?case by simp
next
  case (Cons z zs)
  show ?case
  proof (cases "update_zone z m")
    case (Normal m1)
    then show ?thesis
      using Cons.IH [of m1] update_zone_polygons [of z m] by simp
  next
    case (Raise e m1)
    then show ?thesis
      using update_zone_polygons [of z m] by simp
  qed
qed

lemma updateZones_polygons: "zonePolygons (state_of (updateZones zs m)) = zonePolygons m"
proof -
  have "zonePolygons (state_of (updateZones zs m))
          = zonePolygons (state_of (forEach update_zone zs m))"
    by (simp add: updateZones_def updateSurgeList_def split: completion.splits option.splits)
  then show ?thesis
    by (simp add: forEach_update_zone_polygons)
qed

subsection \<open>Requests: the dictionary\<close>

lemma fold_add_request_other:
  assumes "k \<notin> request_id ` set rs"
  shows "markers_requests (fold add_request rs m) k = markers_requests m k"
  using assms
proof (induction rs arbitrary: m)
  case Nil
  show ?case by simp
next
  case (Cons req rs)
  have "markers_requests (add_request req m) k = markers_requests m k"
    using Cons.prems by (auto simp: add_request_def new_marker_def set_member_def)
  then show ?case
    using Cons by simp
qed

lemma fold_add_request_markers:
  assumes "distinct (map request_id rs)" and "\<forall>r \<in> set rs. request_id r \<notin> set Object_prototype"
    and "i < length (filter active rs)"
  shows "markers_requests (fold add_request rs m) (request_id (filter active rs ! i))
           = Some (next_ref m + i)"
  using assms
proof (induction rs arbitrary: m i)
  case Nil
  then show ?case by simp
next
  case (Cons req rs)
  have d: "distinct (map request_id rs)" and p: "\<forall>r \<in> set rs. request_id r \<notin> set Object_prototype"
    and fresh: "request_id req \<notin> request_id ` set rs"
    using Cons.prems by auto
  show ?case
  proof (cases "active req")
    case False
    then show ?thesis
      using Cons.IH [OF d p, of i m] Cons.prems(3) by (simp add: add_request_def)
  next
    case True
    let ?m = "add_request req m"
    have np: "request_id req \<noteq> ''__proto__''"
      using Cons.prems(2) proto_inherited by auto
    have n: "next_ref ?m = Suc (next_ref m)"
      and k: "markers_requests ?m (request_id req) = Some (next_ref m)"
      using True np by (auto simp: add_request_def new_marker_def set_member_def)
    show ?thesis
    proof (cases i)
      case 0
      then show ?thesis
        using True k fold_add_request_other [OF fresh, of ?m] by simp
    next
      case (Suc j)
      then have "j < length (filter active rs)"
        using Cons.prems(3) True by simp
      from Cons.IH [OF d p this, of ?m] show ?thesis
        using Suc True n by simp
    qed
  qed
qed

lemma updateRequests_entry:
  assumes "distinct (map request_id rs)" and "\<forall>r \<in> set rs. request_id r \<notin> set Object_prototype"
    and "req \<in> set rs" and "active req"
  shows "\<exists>ref. markers_requests (updateRequests rs m) (request_id req) = Some ref
           \<and> marker_store (updateRequests rs m) ref = Some (createRequestMarker req)
           \<and> ref \<in> set (layers_requests (updateRequests rs m))"
proof -
  let ?m = "m\<lparr>layers_requests := [], markers_requests := Map.empty\<rparr>"
  have "req \<in> set (filter active rs)"
    using assms(3,4) by simp
  then obtain i where i: "i < length (filter active rs)" and r: "filter active rs ! i = req"
    unfolding in_set_conv_nth by blast
  note f = fold_add_request [of rs ?m]
  have 1: "markers_requests (fold add_request rs ?m) (request_id req) = Some (next_ref ?m + i)"
    using fold_add_request_markers [OF assms(1,2) i, of ?m] r by simp
  have 2: "marker_store (fold add_request rs ?m) (next_ref ?m + i) = Some (createRequestMarker req)"
    using f i r by auto
  have 3: "next_ref ?m + i \<in> set (layers_requests (fold add_request rs ?m))"
    using f i by simp
  show ?thesis
    using 1 2 3 by (auto simp: updateRequests_fields)
qed

lemma updateRequests_dom_ordinary:
  assumes "\<forall>r \<in> set rs. request_id r \<notin> set Object_prototype"
  shows "dom (markers_requests (updateRequests rs m)) = request_id ` {r \<in> set rs. active r}"
proof -
  have "''__proto__'' \<notin> request_id ` {r \<in> set rs. active r}"
    using assms proto_inherited by auto
  then show ?thesis
    by (simp add: updateRequests_dom)
qed

subsection \<open>Drivers: the markers\<close>

lemma update_driver_own:
  assumes "markers_drivers m (driver_id d) = Some r"
  shows "update_driver d m =
           Normal (m\<lparr>marker_store := (marker_store m)(r \<mapsto> updated_driver_marker d)\<rparr>)"
  using assms by (simp add: update_driver_def get_member_def)

lemma update_driver_new:
  assumes "markers_drivers m (driver_id d) = None" and "driver_id d \<notin> set Object_prototype"
    and "createDriverMarker d = Inr mk"
  shows "update_driver d m =
           Normal (m\<lparr>markers_drivers := (markers_drivers m)(driver_id d \<mapsto> next_ref m),
                      layers_drivers := layers_drivers m @ [next_ref m],
                      marker_store := (marker_store m)(next_ref m \<mapsto> mk),
                      next_ref := Suc (next_ref m)\<rparr>)"
proof -
  have "driver_id d \<noteq> ''__proto__''"
    using assms(2) proto_inherited by auto
  then show ?thesis
    using assms by (simp add: update_driver_def get_member_def set_member_def new_marker_def)
qed

lemma createDriverMarker_speed:
  assumes "speed d \<noteq> None"
  shows "\<exists>mk. createDriverMarker d = Inr mk"
  using assms by (auto simp: createDriverMarker_def split: prod.splits)

text \<open>
  One step of the loop of \<open>updateDrivers\<close>, on a map whose driver markers are distinct
  objects below the next free reference: it completes when the driver has a marker, or
  has a speed and an id that names no inherited property; it keeps every entry of the
  dictionary, touches the marker of no other driver, and either updates the marker of
  the driver in place or makes a new one and adds it to the layer.
\<close>

lemma update_driver_step:
  assumes inj: "inj_on (markers_drivers m) (dom (markers_drivers m))"
    and rng: "\<forall>i r. markers_drivers m i = Some r \<longrightarrow> r < next_ref m"
    and ok: "driver_id d \<in> dom (markers_drivers m)
             \<or> (driver_id d \<notin> set Object_prototype \<and> speed d \<noteq> None)"
  shows "\<exists>m1. update_driver d m = Normal m1
           \<and> inj_on (markers_drivers m1) (dom (markers_drivers m1))
           \<and> (\<forall>i r. markers_drivers m1 i = Some r \<longrightarrow> r < next_ref m1)
           \<and> next_ref m \<le> next_ref m1
           \<and> (\<forall>i r. markers_drivers m i = Some r \<longrightarrow> markers_drivers m1 i = Some r)
           \<and> dom (markers_drivers m1) = insert (driver_id d) (dom (markers_drivers m))
           \<and> (\<forall>i r. markers_drivers m i = Some r \<and> i \<noteq> driver_id d \<longrightarrow>
                 marker_store m1 r = marker_store m r)
           \<and> (\<forall>r. markers_drivers m (driver_id d) = Some r \<longrightarrow>
                 marker_store m1 r = Some (updated_driver_marker d) \<and> layers_drivers m1 = layers_drivers m)
           \<and> (driver_id d \<notin> dom (markers_drivers m) \<longrightarrow>
                 (\<exists>mk. createDriverMarker d = Inr mk
                   \<and> markers_drivers m1 (driver_id d) = Some (next_ref m)
                   \<and> marker_store m1 (next_ref m) = Some mk
                   \<and> layers_drivers m1 = layers_drivers m @ [next_ref m]))"
proof (cases "markers_drivers m (driver_id d)")
  case (Some r)
  let ?m1 = "m\<lparr>marker_store := (marker_store m)(r \<mapsto> updated_driver_marker d)\<rparr>"
  have u: "update_driver d m = Normal ?m1"
    using Some by (rule update_driver_own)
  have other: "r' \<noteq> r"
    if "markers_drivers m i = Some r'" and "i \<noteq> driver_id d" for i r'
    using inj that Some by (auto simp: inj_on_def dom_def)
  show ?thesis
    using u inj rng Some other by (auto simp: insert_absorb)
next
  case None
  then have "driver_id d \<notin> set Object_prototype" and "speed d \<noteq> None"
    using ok by auto
  then obtain mk where mk: "createDriverMarker d = Inr mk"
    using createDriverMarker_speed by blast
  let ?m1 = "m\<lparr>markers_drivers := (markers_drivers m)(driver_id d \<mapsto> next_ref m),
                 layers_drivers := layers_drivers m @ [next_ref m],
                 marker_store := (marker_store m)(next_ref m \<mapsto> mk),
                 next_ref := Suc (next_ref m)\<rparr>"
  have u: "update_driver d m = Normal ?m1"
    using None \<open>driver_id d \<notin> set Object_prototype\<close> mk by (rule update_driver_new)
  have inj1: "inj_on (markers_drivers ?m1) (dom (markers_drivers ?m1))"
  proof (rule inj_onI)
    fix x y
    assume x: "x \<in> dom (markers_drivers ?m1)" and y: "y \<in> dom (markers_drivers ?m1)"
      and e: "markers_drivers ?m1 x = markers_drivers ?m1 y"
    show "x = y"
    proof (cases "x = driver_id d"; cases "y = driver_id d")
      assume "x \<noteq> driver_id d" and "y \<noteq> driver_id d"
      then show ?thesis
        using x y e inj by (auto simp: inj_on_def dom_def)
    next
      assume "x = driver_id d" and "y \<noteq> driver_id d"
      then show ?thesis
        using y e rng less_irrefl by (fastforce simp: dom_def)
    next
      assume "x \<noteq> driver_id d" and "y = driver_id d"
      then show ?thesis
        using x e rng less_irrefl by (fastforce simp: dom_def)
    qed simp
  qed
  have rng1: "\<forall>i r. markers_drivers ?m1 i = Some r \<longrightarrow> r < next_ref ?m1"
    using rng by (auto simp: less_Suc_eq)
  have other: "r' \<noteq> next_ref m" if "markers_drivers m i = Some r'" for i r'
    using rng that by auto
  show ?thesis
    using u inj1 rng1 None mk other by (auto simp: dom_def)
qed

lemma forEach_update_driver_markers:
  assumes "distinct (map driver_id ds)"
    and "\<forall>d \<in> set ds. driver_id d \<in> dom (markers_drivers m)
           \<or> (driver_id d \<notin> set Object_prototype \<and> speed d \<noteq> None)"
    and "inj_on (markers_drivers m) (dom (markers_drivers m))"
    and "\<forall>i r. markers_drivers m i = Some r \<longrightarrow> r < next_ref m"
  shows "\<exists>m'. forEach update_driver ds m = Normal m'
           \<and> inj_on (markers_drivers m') (dom (markers_drivers m'))
           \<and> (\<forall>i r. markers_drivers m' i = Some r \<longrightarrow> r < next_ref m')
           \<and> (\<forall>i r. markers_drivers m i = Some r \<longrightarrow> markers_drivers m' i = Some r)
           \<and> (\<forall>i r. markers_drivers m i = Some r \<and> i \<notin> driver_id ` set ds \<longrightarrow>
                 marker_store m' r = marker_store m r)
           \<and> (\<forall>d \<in> set ds. \<forall>r. markers_drivers m (driver_id d) = Some r \<longrightarrow>
                 marker_store m' r = Some (updated_driver_marker d))
           \<and> (\<forall>d \<in> set ds. driver_id d \<notin> dom (markers_drivers m) \<longrightarrow>
                 (\<exists>r mk. createDriverMarker d = Inr mk
                    \<and> markers_drivers m' (driver_id d) = Some r
                    \<and> marker_store m' r = Some mk
                    \<and> r \<in> set (layers_drivers m')))
           \<and> set (layers_drivers m) \<subseteq> set (layers_drivers m')
           \<and> length (layers_drivers m')
               = length (layers_drivers m)
                 + length (filter (\<lambda>d. driver_id d \<notin> dom (markers_drivers m)) ds)"
  using assms
proof (induction ds arbitrary: m)
  case Nil
  then show ?case by simp
next
  case (Cons d ds)
  have dist: "distinct (map driver_id ds)" and fresh: "driver_id d \<notin> driver_id ` set ds"
    using Cons.prems(1) by auto
  have fresh': "\<forall>x \<in> set ds. driver_id x \<noteq> driver_id d"
    using fresh by (metis imageI)
  have ok: "driver_id d \<in> dom (markers_drivers m)
             \<or> (driver_id d \<notin> set Object_prototype \<and> speed d \<noteq> None)"
    using Cons.prems(2) by simp
  from update_driver_step [OF Cons.prems(3,4) ok] obtain m1 where
    u: "update_driver d m = Normal m1"
    and inj1: "inj_on (markers_drivers m1) (dom (markers_drivers m1))"
    and rng1: "\<forall>i r. markers_drivers m1 i = Some r \<longrightarrow> r < next_ref m1"
    and keep1: "\<forall>i r. markers_drivers m i = Some r \<longrightarrow> markers_drivers m1 i = Some r"
    and dom1: "dom (markers_drivers m1) = insert (driver_id d) (dom (markers_drivers m))"
    and other1: "\<forall>i r. markers_drivers m i = Some r \<and> i \<noteq> driver_id d \<longrightarrow>
                   marker_store m1 r = marker_store m r"
    and own1: "\<forall>r. markers_drivers m (driver_id d) = Some r \<longrightarrow>
                 marker_store m1 r = Some (updated_driver_marker d) \<and> layers_drivers m1 = layers_drivers m"
    and new1: "driver_id d \<notin> dom (markers_drivers m) \<longrightarrow>
                 (\<exists>mk. createDriverMarker d = Inr mk
                   \<and> markers_drivers m1 (driver_id d) = Some (next_ref m)
                   \<and> marker_store m1 (next_ref m) = Some mk
                   \<and> layers_drivers m1 = layers_drivers m @ [next_ref m])"
    by (elim exE conjE) (rule that)
  have ok1: "\<forall>d' \<in> set ds. driver_id d' \<in> dom (markers_drivers m1)
           \<or> (driver_id d' \<notin> set Object_prototype \<and> speed d' \<noteq> None)"
    using Cons.prems(2) dom1 by auto
  from Cons.IH [OF dist ok1 inj1 rng1] obtain m' where
    f: "forEach update_driver ds m1 = Normal m'"
    and inj': "inj_on (markers_drivers m') (dom (markers_drivers m'))"
    and rng': "\<forall>i r. markers_drivers m' i = Some r \<longrightarrow> r < next_ref m'"
    and keep': "\<forall>i r. markers_drivers m1 i = Some r \<longrightarrow> markers_drivers m' i = Some r"
    and other': "\<forall>i r. markers_drivers m1 i = Some r \<and> i \<notin> driver_id ` set ds \<longrightarrow>
                   marker_store m' r = marker_store m1 r"
    and own': "\<forall>d' \<in> set ds. \<forall>r. markers_drivers m1 (driver_id d') = Some r \<longrightarrow>
                 marker_store m' r = Some (updated_driver_marker d')"
    and new': "\<forall>d' \<in> set ds. driver_id d' \<notin> dom (markers_drivers m1) \<longrightarrow>
                 (\<exists>r mk. createDriverMarker d' = Inr mk
                    \<and> markers_drivers m' (driver_id d') = Some r
                    \<and> marker_store m' r = Some mk
                    \<and> r \<in> set (layers_drivers m'))"
    and lay': "set (layers_drivers m1) \<subseteq> set (layers_drivers m')"
    and len': "length (layers_drivers m')
               = length (layers_drivers m1)
                 + length (filter (\<lambda>d. driver_id d \<notin> dom (markers_drivers m1)) ds)"
    by (elim exE conjE) (rule that)
  have 0: "forEach update_driver (d # ds) m = Normal m'"
    using u f by simp
  have 1: "\<forall>i r. markers_drivers m i = Some r \<longrightarrow> markers_drivers m' i = Some r"
    using keep1 keep' by blast
  have 2: "\<forall>i r. markers_drivers m i = Some r \<and> i \<notin> driver_id ` set (d # ds) \<longrightarrow>
                 marker_store m' r = marker_store m r"
  proof (intro allI impI)
    fix i r
    assume a: "markers_drivers m i = Some r \<and> i \<notin> driver_id ` set (d # ds)"
    then have "markers_drivers m1 i = Some r" and "i \<notin> driver_id ` set ds" and "i \<noteq> driver_id d"
      using keep1 by auto
    then show "marker_store m' r = marker_store m r"
      using other' other1 a by metis
  qed
  have 3: "\<forall>d' \<in> set (d # ds). \<forall>r. markers_drivers m (driver_id d') = Some r \<longrightarrow>
                 marker_store m' r = Some (updated_driver_marker d')"
  proof (intro ballI allI impI)
    fix d' r
    assume d': "d' \<in> set (d # ds)" and r: "markers_drivers m (driver_id d') = Some r"
    show "marker_store m' r = Some (updated_driver_marker d')"
    proof (cases "d' = d")
      case True
      have "marker_store m1 r = Some (updated_driver_marker d)"
        using own1 r True by simp
      moreover have "markers_drivers m1 (driver_id d) = Some r"
        using keep1 r True by simp
      ultimately show ?thesis
        using other' fresh True by metis
    next
      case False
      then have "d' \<in> set ds" using d' by simp
      moreover have "markers_drivers m1 (driver_id d') = Some r"
        using keep1 r by simp
      ultimately show ?thesis
        using own' by blast
    qed
  qed
  have 4: "\<forall>d' \<in> set (d # ds). driver_id d' \<notin> dom (markers_drivers m) \<longrightarrow>
                 (\<exists>r mk. createDriverMarker d' = Inr mk
                    \<and> markers_drivers m' (driver_id d') = Some r
                    \<and> marker_store m' r = Some mk
                    \<and> r \<in> set (layers_drivers m'))"
  proof (intro ballI impI)
    fix d'
    assume d': "d' \<in> set (d # ds)" and n: "driver_id d' \<notin> dom (markers_drivers m)"
    show "\<exists>r mk. createDriverMarker d' = Inr mk
                    \<and> markers_drivers m' (driver_id d') = Some r
                    \<and> marker_store m' r = Some mk
                    \<and> r \<in> set (layers_drivers m')"
    proof (cases "d' = d")
      case True
      then obtain mk where mk: "createDriverMarker d = Inr mk"
        and k: "markers_drivers m1 (driver_id d) = Some (next_ref m)"
        and s: "marker_store m1 (next_ref m) = Some mk"
        and l: "layers_drivers m1 = layers_drivers m @ [next_ref m]"
        using new1 n by blast
      have "markers_drivers m' (driver_id d) = Some (next_ref m)"
        using keep' k by simp
      moreover have "marker_store m' (next_ref m) = Some mk"
        using other' k fresh s by metis
      moreover have "next_ref m \<in> set (layers_drivers m')"
        using lay' l by auto
      ultimately show ?thesis
        using mk True by blast
    next
      case False
      then have in_ds: "d' \<in> set ds" using d' by simp
      then have "driver_id d' \<noteq> driver_id d"
        using fresh' by simp
      then have "driver_id d' \<notin> dom (markers_drivers m1)"
        using n dom1 by simp
      then show ?thesis
        using new' in_ds by blast
    qed
  qed
  have 5: "set (layers_drivers m) \<subseteq> set (layers_drivers m')"
  proof (cases "driver_id d \<in> dom (markers_drivers m)")
    case True
    then show ?thesis using own1 lay' by auto
  next
    case False
    then show ?thesis using new1 lay' by auto
  qed
  have flt: "filter (\<lambda>x. driver_id x \<notin> dom (markers_drivers m1)) ds
               = filter (\<lambda>x. driver_id x \<notin> dom (markers_drivers m)) ds"
    using fresh' dom1 by (intro filter_cong) auto
  have 6: "length (layers_drivers m')
               = length (layers_drivers m)
                 + length (filter (\<lambda>x. driver_id x \<notin> dom (markers_drivers m)) (d # ds))"
  proof (cases "driver_id d \<in> dom (markers_drivers m)")
    case True
    then have "layers_drivers m1 = layers_drivers m"
      using own1 by auto
    then show ?thesis
      using len' flt True by simp
  next
    case False
    then have "layers_drivers m1 = layers_drivers m @ [next_ref m]"
      using new1 by auto
    then show ?thesis
      using len' flt False by simp
  qed
  show ?case
    by (rule exI [of _ m']; intro conjI; fact)
qed

lemma updateDrivers_markers:
  assumes "distinct (map driver_id ds)"
    and "\<forall>d \<in> set ds. driver_id d \<in> dom (markers_drivers m)
           \<or> (driver_id d \<notin> set Object_prototype \<and> speed d \<noteq> None)"
    and "inj_on (markers_drivers m) (dom (markers_drivers m))"
    and "\<forall>i r. markers_drivers m i = Some r \<longrightarrow> r < next_ref m"
  shows "\<exists>m'. updateDrivers ds m = Normal m'
           \<and> (\<forall>i r. markers_drivers m i = Some r \<longrightarrow> markers_drivers m' i = Some r)
           \<and> (\<forall>i r. markers_drivers m i = Some r \<and> i \<notin> driver_id ` set ds \<longrightarrow>
                 marker_store m' r = marker_store m r)
           \<and> (\<forall>d \<in> set ds. \<forall>r. markers_drivers m (driver_id d) = Some r \<longrightarrow>
                 marker_store m' r = Some (updated_driver_marker d))
           \<and> (\<forall>d \<in> set ds. driver_id d \<notin> dom (markers_drivers m) \<longrightarrow>
                 (\<exists>r mk. createDriverMarker d = Inr mk
                    \<and> markers_drivers m' (driver_id d) = Some r
                    \<and> marker_store m' r = Some mk
                    \<and> r \<in> set (layers_drivers m')))
           \<and> set (layers_drivers m) \<subseteq> set (layers_drivers m')
           \<and> length (layers_drivers m')
               = length (layers_drivers m)
                 + length (filter (\<lambda>d. driver_id d \<notin> dom (markers_drivers m)) ds)"
proof -
  from forEach_update_driver_markers [OF assms] obtain m1 where
    f: "forEach update_driver ds m = Normal m1"
    and 1: "\<forall>i r. markers_drivers m i = Some r \<longrightarrow> markers_drivers m1 i = Some r"
    and 2: "\<forall>i r. markers_drivers m i = Some r \<and> i \<notin> driver_id ` set ds \<longrightarrow>
                 marker_store m1 r = marker_store m r"
    and 3: "\<forall>d \<in> set ds. \<forall>r. markers_drivers m (driver_id d) = Some r \<longrightarrow>
                 marker_store m1 r = Some (updated_driver_marker d)"
    and 4: "\<forall>d \<in> set ds. driver_id d \<notin> dom (markers_drivers m) \<longrightarrow>
                 (\<exists>r mk. createDriverMarker d = Inr mk
                    \<and> markers_drivers m1 (driver_id d) = Some r
                    \<and> marker_store m1 r = Some mk
                    \<and> r \<in> set (layers_drivers m1))"
    and 5: "set (layers_drivers m) \<subseteq> set (layers_drivers m1)"
    and 6: "length (layers_drivers m1)
               = length (layers_drivers m)
                 + length (filter (\<lambda>d. driver_id d \<notin> dom (markers_drivers m)) ds)"
    by (elim exE conjE) (rule that)
  let ?m' = "updateDriverList ds m1"
  have u: "updateDrivers ds m = Normal ?m'"
    using f by (simp add: updateDrivers_def)
  have same: "markers_drivers ?m' = markers_drivers m1" "marker_store ?m' = marker_store m1"
    "layers_drivers ?m' = layers_drivers m1"
    by (simp_all add: updateDriverList_def split: option.splits)
  show ?thesis
    by (rule exI [of _ ?m']; unfold same; intro conjI; fact)
qed

subsection \<open>Zones: the polygons\<close>

lemma update_zone_own:
  assumes "zonePolygons m (zone_id z) = Some r"
  shows "update_zone z m =
           Normal (m\<lparr>polygon_store := (polygon_store m)
                      (r \<mapsto> \<lparr>color = getZoneColor (demand_level z),
                              fillOpacity = (if is_surge z then 6 / 10 else 3 / 10),
                              surge_class = is_surge z,
                              polygon_popup = zone_popup z\<rparr>)\<rparr>)"
  using assms by (simp add: update_zone_def get_member_def)

lemma update_zone_none:
  assumes "zonePolygons m (zone_id z) = None" and "zone_id z \<notin> set Object_prototype"
  shows "update_zone z m = Normal m"
  using assms by (simp add: update_zone_def get_member_def)

lemma forEach_update_zone_store:
  assumes "distinct (map zone_id zs)"
    and "\<forall>z \<in> set zs. zone_id z \<in> dom (zonePolygons m) \<or> zone_id z \<notin> set Object_prototype"
    and "inj_on (zonePolygons m) (dom (zonePolygons m))"
  shows "\<exists>m'. forEach update_zone zs m = Normal m'
           \<and> m' = m\<lparr>polygon_store := polygon_store m'\<rparr>
           \<and> (\<forall>z \<in> set zs. \<forall>r. zonePolygons m (zone_id z) = Some r \<longrightarrow>
                 polygon_store m' r =
                   Some \<lparr>color = getZoneColor (demand_level z),
                         fillOpacity = (if is_surge z then 6 / 10 else 3 / 10),
                         surge_class = is_surge z,
                         polygon_popup = zone_popup z\<rparr>)
           \<and> (\<forall>r. (\<forall>z \<in> set zs. zonePolygons m (zone_id z) \<noteq> Some r) \<longrightarrow>
                 polygon_store m' r = polygon_store m r)"
  using assms
proof (induction zs arbitrary: m)
  case Nil
  then show ?case by simp
next
  case (Cons z zs)
  let ?styled = "\<lparr>color = getZoneColor (demand_level z),
                   fillOpacity = (if is_surge z then 6 / 10 else 3 / 10),
                   surge_class = is_surge z,
                   polygon_popup = zone_popup z\<rparr>"
  have dist: "distinct (map zone_id zs)"
    and fresh: "\<forall>x \<in> set zs. zone_id x \<noteq> zone_id z"
    using Cons.prems(1) by (auto simp: image_iff)
  obtain m1 where u: "update_zone z m = Normal m1"
    and zp: "zonePolygons m1 = zonePolygons m"
    and shape: "m1 = m\<lparr>polygon_store := polygon_store m1\<rparr>"
    and own: "\<forall>r. zonePolygons m (zone_id z) = Some r \<longrightarrow> polygon_store m1 r = Some ?styled"
    and other: "\<forall>r. zonePolygons m (zone_id z) \<noteq> Some r \<longrightarrow> polygon_store m1 r = polygon_store m r"
  proof (cases "zonePolygons m (zone_id z)")
    case None
    then have "update_zone z m = Normal m"
      using Cons.prems(2) by (auto intro: update_zone_none)
    with None that [of m] show ?thesis by simp
  next
    case (Some r)
    let ?m1 = "m\<lparr>polygon_store := (polygon_store m)(r \<mapsto> ?styled)\<rparr>"
    have "update_zone z m = Normal ?m1"
      using Some by (rule update_zone_own)
    with Some that [of ?m1] show ?thesis by simp
  qed
  have ok1: "\<forall>x \<in> set zs. zone_id x \<in> dom (zonePolygons m1) \<or> zone_id x \<notin> set Object_prototype"
    using Cons.prems(2) zp by simp
  have inj1: "inj_on (zonePolygons m1) (dom (zonePolygons m1))"
    using Cons.prems(3) zp by simp
  from Cons.IH [OF dist ok1 inj1] obtain m' where
    f: "forEach update_zone zs m1 = Normal m'"
    and shape': "m' = m1\<lparr>polygon_store := polygon_store m'\<rparr>"
    and own': "\<forall>x \<in> set zs. \<forall>r. zonePolygons m1 (zone_id x) = Some r \<longrightarrow>
                 polygon_store m' r =
                   Some \<lparr>color = getZoneColor (demand_level x),
                         fillOpacity = (if is_surge x then 6 / 10 else 3 / 10),
                         surge_class = is_surge x,
                         polygon_popup = zone_popup x\<rparr>"
    and other': "\<forall>r. (\<forall>x \<in> set zs. zonePolygons m1 (zone_id x) \<noteq> Some r) \<longrightarrow>
                 polygon_store m' r = polygon_store m1 r"
    by (elim exE conjE) (rule that)
  have 0: "forEach update_zone (z # zs) m = Normal m'"
    using u f by simp
  have 1: "m' = m\<lparr>polygon_store := polygon_store m'\<rparr>"
    by (subst shape', subst shape) simp
  have 2: "\<forall>x \<in> set (z # zs). \<forall>r. zonePolygons m (zone_id x) = Some r \<longrightarrow>
                 polygon_store m' r =
                   Some \<lparr>color = getZoneColor (demand_level x),
                         fillOpacity = (if is_surge x then 6 / 10 else 3 / 10),
                         surge_class = is_surge x,
                         polygon_popup = zone_popup x\<rparr>"
  proof (intro ballI allI impI)
    fix x r
    assume x: "x \<in> set (z # zs)" and r: "zonePolygons m (zone_id x) = Some r"
    show "polygon_store m' r =
                   Some \<lparr>color = getZoneColor (demand_level x),
                         fillOpacity = (if is_surge x then 6 / 10 else 3 / 10),
                         surge_class = is_surge x,
                         polygon_popup = zone_popup x\<rparr>"
    proof (cases "x = z")
      case True
      have "\<forall>y \<in> set zs. zonePolygons m1 (zone_id y) \<noteq> Some r"
      proof
        fix y
        assume y: "y \<in> set zs"
        show "zonePolygons m1 (zone_id y) \<noteq> Some r"
        proof
          assume "zonePolygons m1 (zone_id y) = Some r"
          then have "zonePolygons m (zone_id y) = zonePolygons m (zone_id z)"
            and "zone_id y \<in> dom (zonePolygons m)" and "zone_id z \<in> dom (zonePolygons m)"
            using zp r True by auto
          then have "zone_id y = zone_id z"
            using Cons.prems(3) by (auto simp: inj_on_def)
          then show False
            using fresh y by simp
        qed
      qed
      then have "polygon_store m' r = polygon_store m1 r"
        using other' by simp
      then show ?thesis
        using own r True by simp
    next
      case False
      then have "x \<in> set zs" using x by simp
      then show ?thesis
        using own' r zp by simp
    qed
  qed
  have 3: "\<forall>r. (\<forall>x \<in> set (z # zs). zonePolygons m (zone_id x) \<noteq> Some r) \<longrightarrow>
                 polygon_store m' r = polygon_store m r"
    using other other' zp by simp
  show ?case
    by (rule exI [of _ m']; intro conjI; fact)
qed

lemma updateZones_store:
  assumes "distinct (map zone_id zs)"
    and "\<forall>z \<in> set zs. zone_id z \<in> dom (zonePolygons m) \<or> zone_id z \<notin> set Object_prototype"
    and "inj_on (zonePolygons m) (dom (zonePolygons m))"
  shows "\<exists>m'. updateZones zs m = Normal m'
           \<and> layers_zones m' = layers_zones m
           \<and> (\<forall>z \<in> set zs. \<forall>r. zonePolygons m (zone_id z) = Some r \<longrightarrow>
                 polygon_store m' r =
                   Some \<lparr>color = getZoneColor (demand_level z),
                         fillOpacity = (if is_surge z then 6 / 10 else 3 / 10),
                         surge_class = is_surge z,
                         polygon_popup = zone_popup z\<rparr>)
           \<and> (\<forall>r. (\<forall>z \<in> set zs. zonePolygons m (zone_id z) \<noteq> Some r) \<longrightarrow>
                 polygon_store m' r = polygon_store m r)"
proof -
  from forEach_update_zone_store [OF assms] obtain m1 where
    f: "forEach update_zone zs m = Normal m1"
    and shape: "m1 = m\<lparr>polygon_store := polygon_store m1\<rparr>"
    and 1: "\<forall>z \<in> set zs. \<forall>r. zonePolygons m (zone_id z) = Some r \<longrightarrow>
                 polygon_store m1 r =
                   Some \<lparr>color = getZoneColor (demand_level z),
                         fillOpacity = (if is_surge z then 6 / 10 else 3 / 10),
                         surge_class = is_surge z,
                         polygon_popup = zone_popup z\<rparr>"
    and 2: "\<forall>r. (\<forall>z \<in> set zs. zonePolygons m (zone_id z) \<noteq> Some r) \<longrightarrow>
                 polygon_store m1 r = polygon_store m r"
    by (elim exE conjE) (rule that)
  let ?m' = "updateSurgeList zs m1"
  have u: "updateZones zs m = Normal ?m'"
    using f by (simp add: updateZones_def)
  have same: "polygon_store ?m' = polygon_store m1"
    by (simp add: updateSurgeList_def split: option.splits)
  have 0: "layers_zones ?m' = layers_zones m"
    by (subst shape) (simp add: updateSurgeList_def split: option.splits)
  show ?thesis
    by (rule exI [of _ ?m']; unfold same; intro conjI; fact)
qed

subsection \<open>A domain message and the collection of its domain (claim C1)\<close>

text \<open>
  A driver that has a marker and is absent from the next \<open>driver_updates\<close> message keeps
  its marker; a zone that a \<open>zone_updates\<close> message carries and that has no polygon gets
  none; a completed request that a \<open>request_updates\<close> message carries gets no marker.
\<close>

theorem full_replacement_counterexample:
  "markers_drivers
     (state_of (updateDrivers [a_driver ''d2''] (state_of (updateDrivers [a_driver ''d1''] empty_map))))
     ''d1'' = Some 0
   \<and> zonePolygons (state_of (updateZones [zoneA] empty_map)) ''A'' = None
   \<and> markers_requests (updateRequests [a_request ''r2'' ''completed''] empty_map) ''r2'' = None"
  by (simp add: map_defs entity_defs)

text \<open>
  Claim C1, as the code has it, for messages whose ids are distinct and name no property
  inherited from \<open>Object.prototype\<close>, on a map whose markers and polygons are distinct
  objects. A \<open>request_updates\<close> message replaces the request markers in full: the layer
  holds the markers of its requests of status pending, accepted or in_progress and no
  other, in the order of the message, and the dictionary has an entry for the ids of
  these requests and no other, each leading to the marker of its request. A
  \<open>driver_updates\<close> message whose new drivers have a speed is processed to its end: every
  entry of the dictionary stays, a driver of the message that had a marker has the same
  marker with the position, icon and popup of the message, a driver that had none has a
  new marker in the dictionary and in the layer, the layer grows by these markers only,
  and the marker of a driver absent from the message is as it was. However a
  \<open>driver_updates\<close> message ends, no driver marker is removed. A \<open>zone_updates\<close> message
  leaves the set of zone polygons and the zone layer as they were: the polygon of a zone
  of the message gets its colour, fill opacity, surge class and popup from the message, a
  zone without a polygon gets none, and no other polygon changes.
\<close>

theorem domain_update:
  "map (marker_store (updateRequests rs m)) (layers_requests (updateRequests rs m))
     = map (\<lambda>r. Some (createRequestMarker r)) (filter active rs)
   \<and> (distinct (map request_id rs) \<and> (\<forall>r \<in> set rs. request_id r \<notin> set Object_prototype) \<longrightarrow>
        dom (markers_requests (updateRequests rs m)) = request_id ` {r \<in> set rs. active r}
        \<and> (\<forall>req \<in> set rs. active req \<longrightarrow>
              (\<exists>ref. markers_requests (updateRequests rs m) (request_id req) = Some ref
                 \<and> marker_store (updateRequests rs m) ref = Some (createRequestMarker req)
                 \<and> ref \<in> set (layers_requests (updateRequests rs m)))))
   \<and> dom (markers_drivers m) \<subseteq> dom (markers_drivers (state_of (updateDrivers ds m)))
   \<and> (distinct (map driver_id ds)
        \<and> (\<forall>d \<in> set ds. driver_id d \<in> dom (markers_drivers m)
              \<or> (driver_id d \<notin> set Object_prototype \<and> speed d \<noteq> None))
        \<and> inj_on (markers_drivers m) (dom (markers_drivers m))
        \<and> (\<forall>i r. markers_drivers m i = Some r \<longrightarrow> r < next_ref m) \<longrightarrow>
        (\<exists>m'. updateDrivers ds m = Normal m'
           \<and> dom (markers_drivers m') = dom (markers_drivers m) \<union> driver_id ` set ds
           \<and> (\<forall>i r. markers_drivers m i = Some r \<longrightarrow> markers_drivers m' i = Some r)
           \<and> (\<forall>i r. markers_drivers m i = Some r \<and> i \<notin> driver_id ` set ds \<longrightarrow>
                 marker_store m' r = marker_store m r)
           \<and> (\<forall>d \<in> set ds. \<forall>r. markers_drivers m (driver_id d) = Some r \<longrightarrow>
                 marker_store m' r = Some (updated_driver_marker d))
           \<and> (\<forall>d \<in> set ds. driver_id d \<notin> dom (markers_drivers m) \<longrightarrow>
                 (\<exists>r mk. createDriverMarker d = Inr mk
                    \<and> markers_drivers m' (driver_id d) = Some r
                    \<and> marker_store m' r = Some mk
                    \<and> r \<in> set (layers_drivers m')))
           \<and> set (layers_drivers m) \<subseteq> set (layers_drivers m')
           \<and> length (layers_drivers m')
               = length (layers_drivers m)
                 + length (filter (\<lambda>d. driver_id d \<notin> dom (markers_drivers m)) ds)))
   \<and> zonePolygons (state_of (updateZones zs m)) = zonePolygons m
   \<and> (distinct (map zone_id zs)
        \<and> (\<forall>z \<in> set zs. zone_id z \<in> dom (zonePolygons m) \<or> zone_id z \<notin> set Object_prototype)
        \<and> inj_on (zonePolygons m) (dom (zonePolygons m)) \<longrightarrow>
        (\<exists>m'. updateZones zs m = Normal m'
           \<and> layers_zones m' = layers_zones m
           \<and> (\<forall>z \<in> set zs. \<forall>r. zonePolygons m (zone_id z) = Some r \<longrightarrow>
                 polygon_store m' r =
                   Some \<lparr>color = getZoneColor (demand_level z),
                         fillOpacity = (if is_surge z then 6 / 10 else 3 / 10),
                         surge_class = is_surge z,
                         polygon_popup = zone_popup z\<rparr>)
           \<and> (\<forall>r. (\<forall>z \<in> set zs. zonePolygons m (zone_id z) \<noteq> Some r) \<longrightarrow>
                 polygon_store m' r = polygon_store m r)))"
proof (intro conjI impI)
  show "map (marker_store (updateRequests rs m)) (layers_requests (updateRequests rs m))
          = map (\<lambda>r. Some (createRequestMarker r)) (filter active rs)"
    using updateRequests_layer [of rs m] by (simp add: activeRequests_def)
next
  assume "distinct (map request_id rs) \<and> (\<forall>r \<in> set rs. request_id r \<notin> set Object_prototype)"
  then show "dom (markers_requests (updateRequests rs m)) = request_id ` {r \<in> set rs. active r}"
    by (simp add: updateRequests_dom_ordinary)
next
  assume h: "distinct (map request_id rs) \<and> (\<forall>r \<in> set rs. request_id r \<notin> set Object_prototype)"
  show "\<forall>req \<in> set rs. active req \<longrightarrow>
              (\<exists>ref. markers_requests (updateRequests rs m) (request_id req) = Some ref
                 \<and> marker_store (updateRequests rs m) ref = Some (createRequestMarker req)
                 \<and> ref \<in> set (layers_requests (updateRequests rs m)))"
    using updateRequests_entry [of rs _ m] h by blast
next
  show "dom (markers_drivers m) \<subseteq> dom (markers_drivers (state_of (updateDrivers ds m)))"
    by (rule updateDrivers_keeps)
next
  assume h: "distinct (map driver_id ds)
        \<and> (\<forall>d \<in> set ds. driver_id d \<in> dom (markers_drivers m)
              \<or> (driver_id d \<notin> set Object_prototype \<and> speed d \<noteq> None))
        \<and> inj_on (markers_drivers m) (dom (markers_drivers m))
        \<and> (\<forall>i r. markers_drivers m i = Some r \<longrightarrow> r < next_ref m)"
  then have h1: "distinct (map driver_id ds)"
    and h2: "\<forall>d \<in> set ds. driver_id d \<in> dom (markers_drivers m)
              \<or> (driver_id d \<notin> set Object_prototype \<and> speed d \<noteq> None)"
    and h3: "inj_on (markers_drivers m) (dom (markers_drivers m))"
    and h4: "\<forall>i r. markers_drivers m i = Some r \<longrightarrow> r < next_ref m"
    by simp_all
  from updateDrivers_markers [OF h1 h2 h3 h4] obtain m' where
    u: "updateDrivers ds m = Normal m'"
    and 1: "\<forall>i r. markers_drivers m i = Some r \<longrightarrow> markers_drivers m' i = Some r"
    and 2: "\<forall>i r. markers_drivers m i = Some r \<and> i \<notin> driver_id ` set ds \<longrightarrow>
                 marker_store m' r = marker_store m r"
    and 3: "\<forall>d \<in> set ds. \<forall>r. markers_drivers m (driver_id d) = Some r \<longrightarrow>
                 marker_store m' r = Some (updated_driver_marker d)"
    and 4: "\<forall>d \<in> set ds. driver_id d \<notin> dom (markers_drivers m) \<longrightarrow>
                 (\<exists>r mk. createDriverMarker d = Inr mk
                    \<and> markers_drivers m' (driver_id d) = Some r
                    \<and> marker_store m' r = Some mk
                    \<and> r \<in> set (layers_drivers m'))"
    and 5: "set (layers_drivers m) \<subseteq> set (layers_drivers m')"
    and 6: "length (layers_drivers m')
               = length (layers_drivers m)
                 + length (filter (\<lambda>d. driver_id d \<notin> dom (markers_drivers m)) ds)"
    by (elim exE conjE) (rule that)
  have 0: "dom (markers_drivers m') = dom (markers_drivers m) \<union> driver_id ` set ds"
    using u by (rule updateDrivers_dom)
  show "\<exists>m'. updateDrivers ds m = Normal m'
           \<and> dom (markers_drivers m') = dom (markers_drivers m) \<union> driver_id ` set ds
           \<and> (\<forall>i r. markers_drivers m i = Some r \<longrightarrow> markers_drivers m' i = Some r)
           \<and> (\<forall>i r. markers_drivers m i = Some r \<and> i \<notin> driver_id ` set ds \<longrightarrow>
                 marker_store m' r = marker_store m r)
           \<and> (\<forall>d \<in> set ds. \<forall>r. markers_drivers m (driver_id d) = Some r \<longrightarrow>
                 marker_store m' r = Some (updated_driver_marker d))
           \<and> (\<forall>d \<in> set ds. driver_id d \<notin> dom (markers_drivers m) \<longrightarrow>
                 (\<exists>r mk. createDriverMarker d = Inr mk
                    \<and> markers_drivers m' (driver_id d) = Some r
                    \<and> marker_store m' r = Some mk
                    \<and> r \<in> set (layers_drivers m')))
           \<and> set (layers_drivers m) \<subseteq> set (layers_drivers m')
           \<and> length (layers_drivers m')
               = length (layers_drivers m)
                 + length (filter (\<lambda>d. driver_id d \<notin> dom (markers_drivers m)) ds)"
    by (rule exI [of _ m']; intro conjI; fact)
next
  show "zonePolygons (state_of (updateZones zs m)) = zonePolygons m"
    by (rule updateZones_polygons)
next
  assume "distinct (map zone_id zs)
        \<and> (\<forall>z \<in> set zs. zone_id z \<in> dom (zonePolygons m) \<or> zone_id z \<notin> set Object_prototype)
        \<and> inj_on (zonePolygons m) (dom (zonePolygons m))"
  then show "\<exists>m'. updateZones zs m = Normal m'
           \<and> layers_zones m' = layers_zones m
           \<and> (\<forall>z \<in> set zs. \<forall>r. zonePolygons m (zone_id z) = Some r \<longrightarrow>
                 polygon_store m' r =
                   Some \<lparr>color = getZoneColor (demand_level z),
                         fillOpacity = (if is_surge z then 6 / 10 else 3 / 10),
                         surge_class = is_surge z,
                         polygon_popup = zone_popup z\<rparr>)
           \<and> (\<forall>r. (\<forall>z \<in> set zs. zonePolygons m (zone_id z) \<noteq> Some r) \<longrightarrow>
                 polygon_store m' r = polygon_store m r)"
    using updateZones_store [of zs m] by blast
qed

theorem domain_update_witness:
  "dom (markers_requests
          (updateRequests
             [a_request ''r1'' ''pending'', a_request ''r2'' ''completed'', a_request ''r3'' ''accepted'']
             (updateRequests [a_request ''r0'' ''pending''] a_map))) = {''r1'', ''r3''}
   \<and> map (marker_store
             (updateRequests
                [a_request ''r1'' ''pending'', a_request ''r2'' ''completed'', a_request ''r3'' ''accepted'']
                (updateRequests [a_request ''r0'' ''pending''] a_map)))
         (layers_requests
             (updateRequests
                [a_request ''r1'' ''pending'', a_request ''r2'' ''completed'', a_request ''r3'' ''accepted'']
                (updateRequests [a_request ''r0'' ''pending''] a_map)))
       = [Some (createRequestMarker (a_request ''r1'' ''pending'')),
          Some (createRequestMarker (a_request ''r3'' ''accepted''))]
   \<and> dom (markers_drivers
            (state_of (updateDrivers [(a_driver ''d1'')\<lparr>heading := 180\<rparr>, a_driver ''d2''] a_map)))
       = {''d1'', ''d2''}
   \<and> marker_store
         (state_of (updateDrivers [(a_driver ''d1'')\<lparr>heading := 180\<rparr>, a_driver ''d2''] a_map)) 0
       = Some (updated_driver_marker ((a_driver ''d1'')\<lparr>heading := 180\<rparr>))
   \<and> (\<exists>r mk. createDriverMarker (a_driver ''d2'') = Inr mk
         \<and> markers_drivers
              (state_of (updateDrivers [(a_driver ''d1'')\<lparr>heading := 180\<rparr>, a_driver ''d2''] a_map))
              ''d2'' = Some r
         \<and> marker_store
              (state_of (updateDrivers [(a_driver ''d1'')\<lparr>heading := 180\<rparr>, a_driver ''d2''] a_map))
              r = Some mk
         \<and> r \<in> set (layers_drivers
              (state_of (updateDrivers [(a_driver ''d1'')\<lparr>heading := 180\<rparr>, a_driver ''d2''] a_map))))
   \<and> length (layers_drivers
         (state_of (updateDrivers [(a_driver ''d1'')\<lparr>heading := 180\<rparr>, a_driver ''d2''] a_map)))
       = 2
   \<and> polygon_store
         (state_of (updateZones [zoneA\<lparr>demand_level := 9, is_surge := True\<rparr>, zoneB] a_map)) 1
       = Some \<lparr>color = ''#7a0177'', fillOpacity = 6 / 10, surge_class = True,
               polygon_popup = Zone_popup ''A'' 9 1 2 True\<rparr>
   \<and> dom (zonePolygons
            (state_of (updateZones [zoneA\<lparr>demand_level := 9, is_surge := True\<rparr>, zoneB] a_map)))
       = {''A''}"
proof -
  let ?rs = "[a_request ''r1'' ''pending'', a_request ''r2'' ''completed'', a_request ''r3'' ''accepted'']"
  let ?mr = "updateRequests [a_request ''r0'' ''pending''] a_map"
  let ?d1 = "(a_driver ''d1'')\<lparr>heading := 180\<rparr>"
  let ?ds = "[?d1, a_driver ''d2'']"
  let ?z1 = "zoneA\<lparr>demand_level := 9, is_surge := True\<rparr>"
  let ?zs = "[?z1, zoneB]"
  have hr: "distinct (map request_id ?rs) \<and> (\<forall>r \<in> set ?rs. request_id r \<notin> set Object_prototype)"
    by (simp add: a_request_def Object_prototype_def)
  have hd: "distinct (map driver_id ?ds)
        \<and> (\<forall>d \<in> set ?ds. driver_id d \<in> dom (markers_drivers a_map)
              \<or> (driver_id d \<notin> set Object_prototype \<and> speed d \<noteq> None))
        \<and> inj_on (markers_drivers a_map) (dom (markers_drivers a_map))
        \<and> (\<forall>i r. markers_drivers a_map i = Some r \<longrightarrow> r < next_ref a_map)"
    by (simp add: entity_defs Object_prototype_def)
  have hz: "distinct (map zone_id ?zs)
        \<and> (\<forall>z \<in> set ?zs. zone_id z \<in> dom (zonePolygons a_map) \<or> zone_id z \<notin> set Object_prototype)
        \<and> inj_on (zonePolygons a_map) (dom (zonePolygons a_map))"
    by (simp add: entity_defs Object_prototype_def)
  have act: "filter active ?rs = [a_request ''r1'' ''pending'', a_request ''r3'' ''accepted'']"
    by (simp add: active_def a_request_def)
  have "{r \<in> set ?rs. active r} = set (filter active ?rs)"
    by (simp only: set_filter)
  then have ids: "request_id ` {r \<in> set ?rs. active r} = {''r1'', ''r3''}"
    unfolding act by (simp add: a_request_def)
  note A = domain_update [of ?rs ?mr "[]" "[]"]
  have req1: "map (marker_store (updateRequests ?rs ?mr)) (layers_requests (updateRequests ?rs ?mr))
       = [Some (createRequestMarker (a_request ''r1'' ''pending'')),
          Some (createRequestMarker (a_request ''r3'' ''accepted''))]"
    using A [THEN conjunct1] unfolding act by simp
  have req2: "dom (markers_requests (updateRequests ?rs ?mr)) = {''r1'', ''r3''}"
    using A [THEN conjunct2, THEN conjunct1, THEN mp, OF hr, THEN conjunct1] unfolding ids .
  note B = domain_update [of "[]" a_map ?ds ?zs]
  note D = B [THEN conjunct2, THEN conjunct2, THEN conjunct2, THEN conjunct1, THEN mp, OF hd]
  from D obtain m' where
    u: "updateDrivers ?ds a_map = Normal m'"
    and d0: "dom (markers_drivers m') = dom (markers_drivers a_map) \<union> driver_id ` set ?ds"
    and d3: "\<forall>d \<in> set ?ds. \<forall>r. markers_drivers a_map (driver_id d) = Some r \<longrightarrow>
                 marker_store m' r = Some (updated_driver_marker d)"
    and d4: "\<forall>d \<in> set ?ds. driver_id d \<notin> dom (markers_drivers a_map) \<longrightarrow>
                 (\<exists>r mk. createDriverMarker d = Inr mk
                    \<and> markers_drivers m' (driver_id d) = Some r
                    \<and> marker_store m' r = Some mk
                    \<and> r \<in> set (layers_drivers m'))"
    and d6: "length (layers_drivers m')
               = length (layers_drivers a_map)
                 + length (filter (\<lambda>d. driver_id d \<notin> dom (markers_drivers a_map)) ?ds)"
    by (elim exE conjE) (rule that)
  have s: "state_of (updateDrivers ?ds a_map) = m'"
    using u by simp
  have drv1: "dom (markers_drivers m') = {''d1'', ''d2''}"
    unfolding d0 by (auto simp: entity_defs)
  have k1: "markers_drivers a_map (driver_id ?d1) = Some 0"
    by (simp add: entity_defs)
  have drv2: "marker_store m' 0 = Some (updated_driver_marker ?d1)"
    using d3 k1 by simp
  have k2: "driver_id (a_driver ''d2'') \<notin> dom (markers_drivers a_map)"
    by (simp add: entity_defs)
  have drv3: "\<exists>r mk. createDriverMarker (a_driver ''d2'') = Inr mk
                    \<and> markers_drivers m' ''d2'' = Some r
                    \<and> marker_store m' r = Some mk
                    \<and> r \<in> set (layers_drivers m')"
  proof -
    have "\<exists>r mk. createDriverMarker (a_driver ''d2'') = Inr mk
                    \<and> markers_drivers m' (driver_id (a_driver ''d2'')) = Some r
                    \<and> marker_store m' r = Some mk
                    \<and> r \<in> set (layers_drivers m')"
      using d4 k2 by simp
    then show ?thesis
      by (simp add: a_driver_def)
  qed
  have drv4: "length (layers_drivers m') = 2"
    unfolding d6 by (simp add: entity_defs)
  note Z = B [THEN conjunct2, THEN conjunct2, THEN conjunct2, THEN conjunct2, THEN conjunct2, THEN mp, OF hz]
  from Z obtain m'' where
    v: "updateZones ?zs a_map = Normal m''"
    and z2: "\<forall>z \<in> set ?zs. \<forall>r. zonePolygons a_map (zone_id z) = Some r \<longrightarrow>
                 polygon_store m'' r =
                   Some \<lparr>color = getZoneColor (demand_level z),
                         fillOpacity = (if is_surge z then 6 / 10 else 3 / 10),
                         surge_class = is_surge z,
                         polygon_popup = zone_popup z\<rparr>"
    by (elim exE conjE) (rule that)
  have t: "state_of (updateZones ?zs a_map) = m''"
    using v by simp
  have k3: "zonePolygons a_map (zone_id ?z1) = Some 1"
    by (simp add: entity_defs)
  have "polygon_store m'' 1 =
          Some \<lparr>color = getZoneColor (demand_level ?z1),
                fillOpacity = (if is_surge ?z1 then 6 / 10 else 3 / 10),
                surge_class = is_surge ?z1,
                polygon_popup = zone_popup ?z1\<rparr>"
    using z2 k3 by simp
  then have zn1: "polygon_store m'' 1 =
       Some \<lparr>color = ''#7a0177'', fillOpacity = 6 / 10, surge_class = True,
               polygon_popup = Zone_popup ''A'' 9 1 2 True\<rparr>"
    by (simp add: zoneA_def getZoneColor_def demandColors_def zone_popup_def slice_last4_def)
  have zn2: "dom (zonePolygons m'') = {''A''}"
    using B [THEN conjunct2, THEN conjunct2, THEN conjunct2, THEN conjunct2, THEN conjunct1]
    unfolding t by (simp add: entity_defs)
  show ?thesis
    unfolding s t
    by (intro conjI; fact)
qed

subsection \<open>The zones of highest demand (claim C8)\<close>

text \<open>
  The code has no N: the chart takes the first 10 zones and the surge list takes all surge
  zones. Over the zones A of level 3, B and C of level 9 the chart lists B, C and A, and
  so does the surge list when all three are surge zones: A is not left out.
\<close>

theorem top_n_counterexample:
  "map zone_id (topZones [zoneA, zoneB, zoneC]) = [''B'', ''C'', ''A'']
   \<and> labels (updateZoneStats [zoneA, zoneB, zoneC]
        \<lparr>statsChart = True, labels = [], dataset_data = [], backgroundColor = [], borderColor = []\<rparr>)
       = [''B'', ''C'', ''A'']
   \<and> map zone_id (surgeZones [zoneA\<lparr>is_surge := True\<rparr>, zoneB, zoneC]) = [''B'', ''C'', ''A'']"
  by (simp add: updateZoneStats_def topZones_def sortedZones_def surgeZones_def Array_sort_def
      slice_last4_def entity_defs)

text \<open>
  Claim C8, as the code has it. \<open>topZones\<close> is what \<open>updateZoneStats\<close> puts into the chart:
  10 of the zones, or all when there are fewer; by descending \<open>demand_level\<close>; no zone left
  out has more demand than one taken; and the zones taken of any one level are the first
  of that level in the input, in the order of the input. The surge list of the sidebar is
  all surge zones by descending \<open>demand_level\<close>, those of one level in the order of the
  input. Over the zones A of level 3, B and C of level 9, the chart lists B, C, A.
\<close>

theorem top_ten_by_demand:
  "length (topZones zones) = min 10 (length zones)
   \<and> mset (topZones zones) \<subseteq># mset zones
   \<and> sorted_wrt (\<lambda>a b. demand_level b \<le> demand_level a) (topZones zones)
   \<and> (\<forall>a \<in> set (topZones zones). \<forall>b \<in># mset zones - mset (topZones zones).
         demand_level b \<le> demand_level a)
   \<and> (\<forall>k. prefix (filter (\<lambda>z. demand_level z = k) (topZones zones))
                   (filter (\<lambda>z. demand_level z = k) zones))
   \<and> (statsChart u \<longrightarrow>
         dataset_data (updateZoneStats zones u) = map demand_level (topZones zones)
         \<and> labels (updateZoneStats zones u) = map (\<lambda>z. slice_last4 (zone_id z)) (topZones zones))
   \<and> (\<not> statsChart u \<longrightarrow> updateZoneStats zones u = u)
   \<and> mset (surgeZones zones) = filter_mset is_surge (mset zones)
   \<and> sorted_wrt (\<lambda>a b. demand_level b \<le> demand_level a) (surgeZones zones)
   \<and> (\<forall>k. filter (\<lambda>z. demand_level z = k) (surgeZones zones)
            = filter (\<lambda>z. demand_level z = k \<and> is_surge z) zones)
   \<and> map zone_id (topZones [zoneA, zoneB, zoneC]) = [''B'', ''C'', ''A'']"
proof -
  let ?s = "sortedZones zones"
  have split: "mset zones = mset (topZones zones) + mset (drop 10 ?s)"
    using sortedZones_mset [of zones]
    by (metis append_take_drop_id mset_append topZones_def)
  have 1: "length (topZones zones) = min 10 (length zones)"
    using sortedZones_mset [of zones] by (metis length_take min.commute size_mset topZones_def)
  have 2: "mset (topZones zones) \<subseteq># mset zones"
    using split by simp
  have 3: "sorted_wrt (\<lambda>a b. demand_level b \<le> demand_level a) (topZones zones)"
    using sortedZones_descending [of zones] by (simp add: topZones_def sorted_wrt_take)
  have rest: "mset zones - mset (topZones zones) = mset (drop 10 ?s)"
    using split by simp
  have 4: "\<forall>a \<in> set (topZones zones). \<forall>b \<in># mset zones - mset (topZones zones).
         demand_level b \<le> demand_level a"
    unfolding rest unfolding topZones_def
    using sorted_wrt_take_drop [OF sortedZones_descending] by auto
  have 5: "\<forall>k. prefix (filter (\<lambda>z. demand_level z = k) (topZones zones))
                   (filter (\<lambda>z. demand_level z = k) zones)"
  proof
    fix k
    have "prefix (filter (\<lambda>z. demand_level z = k) (take 10 ?s)) (filter (\<lambda>z. demand_level z = k) ?s)"
      by (rule prefix_filter_take)
    then show "prefix (filter (\<lambda>z. demand_level z = k) (topZones zones))
                 (filter (\<lambda>z. demand_level z = k) zones)"
      unfolding sortedZones_stable topZones_def .
  qed
  have 6: "statsChart u \<longrightarrow>
         dataset_data (updateZoneStats zones u) = map demand_level (topZones zones)
         \<and> labels (updateZoneStats zones u) = map (\<lambda>z. slice_last4 (zone_id z)) (topZones zones)"
    and 7: "\<not> statsChart u \<longrightarrow> updateZoneStats zones u = u"
    by (simp_all add: updateZoneStats_def)
  have 8: "mset (surgeZones zones) = filter_mset is_surge (mset zones)"
    by (simp add: surgeZones_sorted sortedZones_mset)
  have 9: "sorted_wrt (\<lambda>a b. demand_level b \<le> demand_level a) (surgeZones zones)"
    by (simp add: surgeZones_sorted sortedZones_descending)
  have 10: "\<forall>k. filter (\<lambda>z. demand_level z = k) (surgeZones zones)
            = filter (\<lambda>z. demand_level z = k \<and> is_surge z) zones"
    by (simp add: surgeZones_sorted sortedZones_stable conj_commute)
  have 11: "map zone_id (topZones [zoneA, zoneB, zoneC]) = [''B'', ''C'', ''A'']"
    unfolding top_example by (simp add: entity_defs)
  from 1 2 3 4 5 6 7 8 9 10 11 show ?thesis by blast
qed

theorem top_ten_by_demand_witness:
  "topZones [zoneA, zoneB, zoneC] = [zoneB, zoneC, zoneA]
   \<and> demand_level zoneA \<le> demand_level zoneC
   \<and> prefix [zoneB, zoneC] (filter (\<lambda>z. demand_level z = 9) [zoneA, zoneB, zoneC])
   \<and> dataset_data
         (updateZoneStats [zoneA, zoneB, zoneC]
            \<lparr>statsChart = True, labels = [], dataset_data = [], backgroundColor = [], borderColor = []\<rparr>)
       = [9, 9, 3]
   \<and> updateZoneStats [zoneA, zoneB, zoneC]
         \<lparr>statsChart = False, labels = [], dataset_data = [], backgroundColor = [], borderColor = []\<rparr>
       = \<lparr>statsChart = False, labels = [], dataset_data = [], backgroundColor = [], borderColor = []\<rparr>"
proof -
  let ?u = "\<lparr>statsChart = True, labels = [], dataset_data = [], backgroundColor = [], borderColor = []\<rparr>"
  let ?v = "\<lparr>statsChart = False, labels = [], dataset_data = [], backgroundColor = [], borderColor = []\<rparr>"
  have s: "topZones [zoneA, zoneB, zoneC] = [zoneB, zoneC, zoneA]"
    by (rule top_example)
  show ?thesis
    using top_ten_by_demand [of "[zoneA, zoneB, zoneC]" ?u] top_ten_by_demand [of "[zoneA, zoneB, zoneC]" ?v]
    unfolding s by (simp add: entity_defs)
qed

subsection \<open>The active requests (claim C9)\<close>

text \<open>
  Claim C9. The active requests of a message are exactly its requests whose status is
  pending, accepted or in_progress, each as often as in the message, and in the order of
  the message. The request layer of the map holds the markers of these requests in this
  order after \<open>updateRequests\<close>. Over requests of status pending, completed and accepted,
  the active ones are the first and the third.
\<close>

theorem active_filter:
  "set (activeRequests rs)
     = {r \<in> set rs. request_status r \<in> {''pending'', ''accepted'', ''in_progress''}}
   \<and> mset (activeRequests rs)
     = filter_mset (\<lambda>r. request_status r \<in> {''pending'', ''accepted'', ''in_progress''}) (mset rs)
   \<and> subseq (activeRequests rs) rs
   \<and> map (marker_store (updateRequests rs m)) (layers_requests (updateRequests rs m))
       = map (\<lambda>r. Some (createRequestMarker r)) (activeRequests rs)
   \<and> map request_id
        (activeRequests [a_request ''r1'' ''pending'', a_request ''r2'' ''completed'',
                         a_request ''r3'' ''accepted''])
       = [''r1'', ''r3'']"
proof -
  have 1: "active = (\<lambda>r. request_status r \<in> {''pending'', ''accepted'', ''in_progress''})"
    by (auto simp: active_def)
  have 2: "map request_id
        (activeRequests [a_request ''r1'' ''pending'', a_request ''r2'' ''completed'',
                         a_request ''r3'' ''accepted''])
       = [''r1'', ''r3'']"
    by (simp add: activeRequests_def active_def a_request_def)
  show ?thesis
    using 2 updateRequests_layer [of rs m]
    by (simp add: activeRequests_def 1)
qed

end
